theory Spec2Isabelle
  imports Main "HOL-Library.Sublist" "HOL-Library.AList"
begin

section \<open>Python string operations used by the script\<close>

text \<open>
  Identifiers are Python strings, modelled as \<open>string\<close>. The script uses four string
  operations: \<open>"@" in s\<close>, \<open>s.split("@")[0]\<close>, \<open>s.endswith("@lid")\<close> and
  \<open>s.replace("@lid", "")\<close>.
\<close>

definition split_first :: "string \<Rightarrow> string" where
  \<comment> \<open>\<open>s.split("@")[0]\<close>: the text before the first \<open>@\<close> (all of \<open>s\<close> when there is none).\<close>
  "split_first s = takeWhile (\<lambda>c. c \<noteq> CHR ''@'') s"

definition user_part :: "string \<Rightarrow> string" where
  \<comment> \<open>\<open>s.split("@")[0] if "@" in s else s\<close> (lines 36, 37 and 110).\<close>
  "user_part s = (if CHR ''@'' \<in> set s then split_first s else s)"

function str_replace :: "string \<Rightarrow> string \<Rightarrow> string \<Rightarrow> string" where
  "str_replace old new [] = (if old = [] then new else [])"
| "str_replace old new (c # cs) =
     (if old = [] then new @ c # str_replace old new cs
      else if prefix old (c # cs) then new @ str_replace old new (drop (length old) (c # cs))
      else c # str_replace old new cs)"
  by pat_completeness auto
termination
  by (relation "measure (\<lambda>(old, new, s). length s)") auto

definition bare_lid :: "string \<Rightarrow> string" where
  \<comment> \<open>Line 48: \<open>chat_jid.replace("@lid", "") if chat_jid.endswith("@lid") else chat_jid\<close>.\<close>
  "bare_lid chat_jid =
     (if suffix ''@lid'' chat_jid then str_replace ''@lid'' [] chat_jid else chat_jid)"

definition ascii_lower :: "char \<Rightarrow> char" where
  "ascii_lower c =
     (case map_of (zip ''ABCDEFGHIJKLMNOPQRSTUVWXYZ'' ''abcdefghijklmnopqrstuvwxyz'') c of
        None \<Rightarrow> c
      | Some l \<Rightarrow> l)"

definition like_lid :: "string \<Rightarrow> bool" where
  \<comment> \<open>The SQL condition \<open>LIKE '%@lid'\<close>: SQLite compares ASCII letters without case.\<close>
  "like_lid s = suffix ''@lid'' (map ascii_lower s)"

section \<open>The target store\<close>

text \<open>
  The script reads and writes two tables. Of \<open>chats\<close> it names the column \<open>jid\<close>; of
  \<open>messages\<close> the columns \<open>id\<close>, \<open>chat_jid\<close> and \<open>sender\<close>. The other columns of a row
  are carried along in one field. A table is the list of its rows, and a query without
  \<open>ORDER BY\<close> returns rows in the order of that list. Columns hold text values.
\<close>

record chat =
  jid :: string
  chat_cols :: string

record message =
  msg_id :: string
  chat_jid :: string
  sender :: string
  msg_cols :: string

record db =
  chats :: "chat list"
  messages :: "message list"

datatype error = OperationalError | IntegrityError | DatabaseError | FileNotFoundError

datatype stmt =
    Connect
  | SelectLidChats
  | CountChats string
  | DeleteDupMessages string string string
  | UpdateMessagesChat string string
  | DeleteChat string
  | UpdateChatJid string string
  | SelectLidSenders
  | UpdateMessagesSender string string
  | SelectSenders
  | Commit

text \<open>
  Every call of the database library can raise: an I/O error, or the violation of a
  constraint that the declaration of the tables imposes. Neither the I/O environment nor
  the \<open>CREATE TABLE\<close> statements are part of the script, so both are a parameter: a function
  \<open>raises\<close> that says, for a statement and the contents of the store it would run on,
  whether the call raises and which error. A call that raises changes nothing.
\<close>

type_synonym faults = "stmt \<Rightarrow> db \<Rightarrow> error option"

definition execute :: "faults \<Rightarrow> stmt \<Rightarrow> db \<Rightarrow> 'a \<Rightarrow> error + 'a" where
  "execute raises st d r = (case raises st d of Some e \<Rightarrow> Inl e | None \<Rightarrow> Inr r)"

definition bind_err :: "error + 'a \<Rightarrow> ('a \<Rightarrow> error + 'b) \<Rightarrow> error + 'b" where
  "bind_err m f = (case m of Inl e \<Rightarrow> Inl e | Inr x \<Rightarrow> f x)"

definition no_faults :: faults where
  "no_faults st d = None"

subsection \<open>The SQL statements\<close>

definition select_lid_chats :: "faults \<Rightarrow> db \<Rightarrow> error + string list" where
  \<comment> \<open>\<open>SELECT jid FROM chats WHERE jid LIKE '%@lid'\<close>\<close>
  "select_lid_chats raises d =
     execute raises SelectLidChats d (filter like_lid (map jid (chats d)))"

definition count_chats :: "faults \<Rightarrow> string \<Rightarrow> db \<Rightarrow> error + nat" where
  \<comment> \<open>\<open>SELECT COUNT(*) FROM chats WHERE jid = ?\<close>\<close>
  "count_chats raises j d =
     execute raises (CountChats j) d (length (filter (\<lambda>c. jid c = j) (chats d)))"

definition dup_ids :: "string \<Rightarrow> string \<Rightarrow> message list \<Rightarrow> string list" where
  \<comment> \<open>\<open>SELECT m1.id FROM messages m1 INNER JOIN messages m2 ON m1.id = m2.id
      WHERE m1.chat_jid = ? AND m2.chat_jid = ?\<close>\<close>
  "dup_ids a b ms =
     [msg_id m1. m1 \<leftarrow> ms, m2 \<leftarrow> ms, msg_id m1 = msg_id m2 \<and> chat_jid m1 = a \<and> chat_jid m2 = b]"

definition is_dup :: "string \<Rightarrow> string \<Rightarrow> string \<Rightarrow> message list \<Rightarrow> message \<Rightarrow> bool" where
  \<comment> \<open>The condition \<open>chat_jid = ? AND id IN (...)\<close> of the \<open>DELETE\<close> of lines 56 to 60.\<close>
  "is_dup c a b ms m \<longleftrightarrow> chat_jid m = c \<and> msg_id m \<in> set (dup_ids a b ms)"

definition delete_dup_messages ::
  "faults \<Rightarrow> string \<Rightarrow> string \<Rightarrow> string \<Rightarrow> db \<Rightarrow> error + (nat \<times> db)" where
  \<comment> \<open>\<open>DELETE FROM messages WHERE chat_jid = ? AND id IN (...)\<close>, with its row count.\<close>
  "delete_dup_messages raises c a b d =
     execute raises (DeleteDupMessages c a b) d
       (length (filter (is_dup c a b (messages d)) (messages d)),
        d\<lparr>messages := filter (\<lambda>m. \<not> is_dup c a b (messages d) m) (messages d)\<rparr>)"

definition set_chat_jid :: "string \<Rightarrow> string \<Rightarrow> message \<Rightarrow> message" where
  "set_chat_jid new old m = (if chat_jid m = old then m\<lparr>chat_jid := new\<rparr> else m)"

definition update_messages_chat ::
  "faults \<Rightarrow> string \<Rightarrow> string \<Rightarrow> db \<Rightarrow> error + (nat \<times> db)" where
  \<comment> \<open>\<open>UPDATE messages SET chat_jid = ? WHERE chat_jid = ?\<close>, with its row count.\<close>
  "update_messages_chat raises new old d =
     execute raises (UpdateMessagesChat new old) d
       (length (filter (\<lambda>m. chat_jid m = old) (messages d)),
        d\<lparr>messages := map (set_chat_jid new old) (messages d)\<rparr>)"

definition delete_chat :: "faults \<Rightarrow> string \<Rightarrow> db \<Rightarrow> error + db" where
  \<comment> \<open>\<open>DELETE FROM chats WHERE jid = ?\<close>\<close>
  "delete_chat raises j d =
     execute raises (DeleteChat j) d (d\<lparr>chats := filter (\<lambda>c. jid c \<noteq> j) (chats d)\<rparr>)"

definition set_jid :: "string \<Rightarrow> string \<Rightarrow> chat \<Rightarrow> chat" where
  "set_jid new old c = (if jid c = old then c\<lparr>jid := new\<rparr> else c)"

definition update_chat_jid :: "faults \<Rightarrow> string \<Rightarrow> string \<Rightarrow> db \<Rightarrow> error + db" where
  \<comment> \<open>\<open>UPDATE chats SET jid = ? WHERE jid = ?\<close>\<close>
  "update_chat_jid raises new old d =
     execute raises (UpdateChatJid new old) d (d\<lparr>chats := map (set_jid new old) (chats d)\<rparr>)"

definition sql_distinct :: "string list \<Rightarrow> string list" where
  \<comment> \<open>\<open>SELECT DISTINCT\<close>: each value once, at its first occurrence.\<close>
  "sql_distinct xs = rev (remdups (rev xs))"

definition select_lid_senders :: "faults \<Rightarrow> db \<Rightarrow> error + string list" where
  \<comment> \<open>\<open>SELECT DISTINCT sender FROM messages WHERE sender LIKE '%@lid'\<close>\<close>
  "select_lid_senders raises d =
     execute raises SelectLidSenders d
       (sql_distinct (filter like_lid (map sender (messages d))))"

definition select_senders :: "faults \<Rightarrow> db \<Rightarrow> error + string list" where
  \<comment> \<open>\<open>SELECT DISTINCT sender FROM messages\<close>\<close>
  "select_senders raises d =
     execute raises SelectSenders d (sql_distinct (map sender (messages d)))"

definition set_sender :: "string \<Rightarrow> string \<Rightarrow> message \<Rightarrow> message" where
  "set_sender new old m = (if sender m = old then m\<lparr>sender := new\<rparr> else m)"

definition update_messages_sender :: "faults \<Rightarrow> string \<Rightarrow> string \<Rightarrow> db \<Rightarrow> error + db" where
  \<comment> \<open>\<open>UPDATE messages SET sender = ? WHERE sender = ?\<close>\<close>
  "update_messages_sender raises new old d =
     execute raises (UpdateMessagesSender new old) d
       (d\<lparr>messages := map (set_sender new old) (messages d)\<rparr>)"

section \<open>The two lookup tables\<close>

text \<open>
  Lines 31 to 38. \<open>lid_map\<close> is a Python dictionary; its items are the list of its
  (key, value) pairs in insertion order. Both derived dictionaries are only ever looked up,
  so they are maps; a later item overwrites an earlier one with the same key.
\<close>

type_synonym lookup = "string \<rightharpoonup> string"

definition build_maps :: "(string \<times> string) list \<Rightarrow> lookup \<times> lookup" where
  "build_maps items =
     fold (\<lambda>(lid_jid, pn_jid) (jid_map, user_map).
             (jid_map(lid_jid \<mapsto> pn_jid), user_map(user_part lid_jid \<mapsto> user_part pn_jid)))
          items (Map.empty, Map.empty)"

section \<open>The chat pass\<close>

datatype outcome =
    MERGED string string nat nat
  | RENAMED string string
  | NO_MAPPING string

text \<open>
  Lines 53 to 69 and lines 74 to 89 are the same statements, run once the new identifier
  is known (the loop variable of line 46 is \<open>old_jid\<close> here): when a chat with the new
  identifier exists the two chats are merged, otherwise
  the chat is renamed.
\<close>

definition merge_chat :: "faults \<Rightarrow> string \<Rightarrow> string \<Rightarrow> db \<Rightarrow> error + (outcome \<times> db)" where
  "merge_chat raises old_jid new_jid d =
     bind_err (delete_dup_messages raises old_jid old_jid new_jid d) (\<lambda>(dupes, d1).
     bind_err (update_messages_chat raises new_jid old_jid d1) (\<lambda>(moved, d2).
     bind_err (delete_chat raises old_jid d2) (\<lambda>d3.
     Inr (MERGED old_jid new_jid dupes moved, d3))))"

definition rename_chat :: "faults \<Rightarrow> string \<Rightarrow> string \<Rightarrow> db \<Rightarrow> error + (outcome \<times> db)" where
  "rename_chat raises old_jid new_jid d =
     bind_err (update_chat_jid raises new_jid old_jid d) (\<lambda>d1.
     bind_err (update_messages_chat raises new_jid old_jid d1) (\<lambda>(moved, d2).
     Inr (RENAMED old_jid new_jid, d2)))"

definition rewrite_chat :: "faults \<Rightarrow> string \<Rightarrow> string \<Rightarrow> db \<Rightarrow> error + (outcome \<times> db)" where
  "rewrite_chat raises old_jid new_jid d =
     bind_err (count_chats raises new_jid d) (\<lambda>n.
       if n > 0 then merge_chat raises old_jid new_jid d
       else rename_chat raises old_jid new_jid d)"

definition migrate_chat ::
  "faults \<Rightarrow> lookup \<Rightarrow> lookup \<Rightarrow> string \<Rightarrow> db \<Rightarrow> error + (outcome \<times> db)" where
  \<comment> \<open>The body of the loop of lines 46 to 92.\<close>
  "migrate_chat raises jid_map user_map old_jid d =
     (let bare = bare_lid old_jid in
      if bare \<in> dom user_map then
        rewrite_chat raises old_jid (the (user_map bare) @ ''@s.whatsapp.net'') d
      else if old_jid \<in> dom jid_map then
        rewrite_chat raises old_jid (the (jid_map old_jid)) d
      else Inr (NO_MAPPING old_jid, d))"

fun chat_loop ::
  "faults \<Rightarrow> lookup \<Rightarrow> lookup \<Rightarrow> string list \<Rightarrow> db \<Rightarrow> error + (outcome list \<times> db)" where
  "chat_loop raises jid_map user_map [] d = Inr ([], d)"
| "chat_loop raises jid_map user_map (old_jid # rest) d =
     bind_err (migrate_chat raises jid_map user_map old_jid d) (\<lambda>(out, d1).
     bind_err (chat_loop raises jid_map user_map rest d1) (\<lambda>(outs, d2).
     Inr (out # outs, d2)))"

definition chat_pass ::
  "faults \<Rightarrow> lookup \<Rightarrow> lookup \<Rightarrow> db \<Rightarrow> error + (outcome list \<times> db)" where
  "chat_pass raises jid_map user_map d =
     bind_err (select_lid_chats raises d) (\<lambda>lid_chats.
     chat_loop raises jid_map user_map lid_chats d)"

definition chats_updated :: "outcome list \<Rightarrow> nat" where
  \<comment> \<open>The counter of lines 45, 70 and 90: one for each merge or rename.\<close>
  "chats_updated outs = length (filter (\<lambda>out. case out of NO_MAPPING _ \<Rightarrow> False | _ \<Rightarrow> True) outs)"

section \<open>The sender passes\<close>

definition migrate_full_sender ::
  "faults \<Rightarrow> lookup \<Rightarrow> lookup \<Rightarrow> string \<Rightarrow> db \<Rightarrow> error + (nat \<times> db)" where
  \<comment> \<open>The body of the loop of lines 103 to 114, with the increment of the counter.\<close>
  "migrate_full_sender raises jid_map user_map s d =
     (if s \<in> dom jid_map then
        bind_err (update_messages_sender raises (the (jid_map s)) s d) (\<lambda>d1. Inr (1, d1))
      else if user_part s \<in> dom user_map then
        bind_err (update_messages_sender raises (the (user_map (user_part s))) s d)
          (\<lambda>d1. Inr (1, d1))
      else Inr (0, d))"

fun full_sender_loop ::
  "faults \<Rightarrow> lookup \<Rightarrow> lookup \<Rightarrow> string list \<Rightarrow> db \<Rightarrow> error + (nat \<times> db)" where
  "full_sender_loop raises jid_map user_map [] d = Inr (0, d)"
| "full_sender_loop raises jid_map user_map (s # rest) d =
     bind_err (migrate_full_sender raises jid_map user_map s d) (\<lambda>(k, d1).
     bind_err (full_sender_loop raises jid_map user_map rest d1) (\<lambda>(n, d2).
     Inr (k + n, d2)))"

definition full_sender_pass ::
  "faults \<Rightarrow> lookup \<Rightarrow> lookup \<Rightarrow> db \<Rightarrow> error + (nat \<times> db)" where
  "full_sender_pass raises jid_map user_map d =
     bind_err (select_lid_senders raises d) (\<lambda>lid_senders_full.
     full_sender_loop raises jid_map user_map lid_senders_full d)"

definition migrate_bare_sender ::
  "faults \<Rightarrow> lookup \<Rightarrow> string \<Rightarrow> db \<Rightarrow> error + (nat \<times> db)" where
  \<comment> \<open>The body of the loop of lines 123 to 127.\<close>
  "migrate_bare_sender raises user_map s d =
     (if CHR ''@'' \<notin> set s \<and> s \<in> dom user_map then
        bind_err (update_messages_sender raises (the (user_map s)) s d) (\<lambda>d1. Inr (1, d1))
      else Inr (0, d))"

fun bare_sender_loop :: "faults \<Rightarrow> lookup \<Rightarrow> string list \<Rightarrow> db \<Rightarrow> error + (nat \<times> db)" where
  "bare_sender_loop raises user_map [] d = Inr (0, d)"
| "bare_sender_loop raises user_map (s # rest) d =
     bind_err (migrate_bare_sender raises user_map s d) (\<lambda>(k, d1).
     bind_err (bare_sender_loop raises user_map rest d1) (\<lambda>(n, d2).
     Inr (k + n, d2)))"

definition bare_sender_pass :: "faults \<Rightarrow> lookup \<Rightarrow> db \<Rightarrow> error + (nat \<times> db)" where
  "bare_sender_pass raises user_map d =
     bind_err (select_senders raises d) (\<lambda>all_senders.
     bare_sender_loop raises user_map all_senders d)"

section \<open>The migration\<close>

text \<open>
  \<open>run_passes\<close> is lines 27 to 131 on the connection's view of the store: every statement
  of the three passes, then the commit. The connection opens a transaction at the first
  writing statement and the script commits once, at line 131; no exception is caught. So
  \<open>migrate_messages_db\<close> returns the store as the file holds it afterwards: the
  connection's view when the commit was reached, and the store as it was when an
  exception ended the script before.
\<close>

record report =
  outcomes :: "outcome list"
  senders_updated :: nat
  bare_updated :: nat

definition run_passes :: "faults \<Rightarrow> (string \<times> string) list \<Rightarrow> db \<Rightarrow> error + (report \<times> db)" where
  "run_passes raises lid_map d =
     bind_err (execute raises Connect d ()) (\<lambda>_.
     case build_maps lid_map of (jid_map, user_map) \<Rightarrow>
     bind_err (chat_pass raises jid_map user_map d) (\<lambda>(outs, d1).
     bind_err (full_sender_pass raises jid_map user_map d1) (\<lambda>(n, d2).
     bind_err (bare_sender_pass raises user_map d2) (\<lambda>(b, d3).
     bind_err (execute raises Commit d3 ()) (\<lambda>_.
     Inr (\<lparr>outcomes = outs, senders_updated = n, bare_updated = b\<rparr>, d3))))))"

definition migrate_messages_db ::
  "faults \<Rightarrow> db \<Rightarrow> (string \<times> string) list \<Rightarrow> (error + report) \<times> db" where
  "migrate_messages_db raises store lid_map =
     (case run_passes raises lid_map store of
        Inl e \<Rightarrow> (Inl e, store)
      | Inr (rep, d) \<Rightarrow> (Inr rep, d))"


section \<open>Lookups as the claims describe them\<close>

definition chat_target :: "lookup \<Rightarrow> lookup \<Rightarrow> string \<Rightarrow> string option" where
  \<comment> \<open>The new identifier of a chat: the bare-user map first, the full-identifier map on a miss.\<close>
  "chat_target jid_map user_map c =
     (case user_map (bare_lid c) of
        Some phone_user \<Rightarrow> Some (phone_user @ ''@s.whatsapp.net'')
      | None \<Rightarrow> jid_map c)"

section \<open>Failures\<close>

definition same_before_commit :: "faults \<Rightarrow> faults \<Rightarrow> bool" where
  \<comment> \<open>Two environments that can differ in one thing only: whether the commit raises.\<close>
  "same_before_commit r r' \<longleftrightarrow> (\<forall>st d. st \<noteq> Commit \<longrightarrow> r' st d = r st d)"

text \<open>
  Modelled from the spec: the declaration of the two tables, which is not in the script.
  The spec gives the chat table the primary key \<open>jid\<close> and the message table the primary
  key \<open>id\<close> with \<open>chat_jid\<close> referring to the chat; its merge scenario holds the message
  id \<open>m1\<close> under two chats at once, so a message is identified by \<open>id\<close> within its chat.
  \<open>primary_keys\<close> is the environment in which nothing fails but an \<open>UPDATE\<close> that would
  leave two rows with the same key.
\<close>

definition primary_keys :: faults where
  "primary_keys st d =
     (case st of
        UpdateMessagesChat new old \<Rightarrow>
          if distinct (map (\<lambda>m. (msg_id m, chat_jid m)) (map (set_chat_jid new old) (messages d)))
          then None else Some IntegrityError
      | UpdateChatJid new old \<Rightarrow>
          if distinct (map jid (map (set_jid new old) (chats d))) then None
          else Some IntegrityError
      | _ \<Rightarrow> None)"

definition full_target :: "lookup \<Rightarrow> lookup \<Rightarrow> string \<Rightarrow> string option" where
  \<comment> \<open>The new value of a sender in the full pass: the full-identifier map first, the
      bare-user map with the stripped sender on a miss.\<close>
  "full_target jid_map user_map s =
     (case jid_map s of Some t \<Rightarrow> Some t | None \<Rightarrow> user_map (user_part s))"

definition bare_target :: "lookup \<Rightarrow> string \<Rightarrow> string option" where
  \<comment> \<open>The new value of a sender in the bare pass.\<close>
  "bare_target user_map s = (if CHR ''@'' \<in> set s then None else user_map s)"

definition sender_target :: "lookup \<Rightarrow> lookup \<Rightarrow> string \<Rightarrow> string option" where
  \<comment> \<open>The mapping that applies to a sender value, if any: the full pass handles the values
      the pattern \<open>%@lid\<close> matches, the bare pass the values without \<open>@\<close>.\<close>
  "sender_target jid_map user_map s =
     (if like_lid s then full_target jid_map user_map s else bare_target user_map s)"

definition sender_after :: "lookup \<Rightarrow> lookup \<Rightarrow> string \<Rightarrow> string" where
  \<comment> \<open>The sender value with its mapping applied once.\<close>
  "sender_after jid_map user_map s =
     (case sender_target jid_map user_map s of Some t \<Rightarrow> t | None \<Rightarrow> s)"

definition sender_chain_free :: "lookup \<Rightarrow> lookup \<Rightarrow> bool" where
  \<comment> \<open>No value that a sender is rewritten to is itself a sender value with a mapping.\<close>
  "sender_chain_free jid_map user_map \<longleftrightarrow>
     (\<forall>s t. sender_target jid_map user_map s = Some t \<longrightarrow> sender_target jid_map user_map t = None)"

definition chat_chain_free :: "lookup \<Rightarrow> lookup \<Rightarrow> bool" where
  \<comment> \<open>No identifier that a chat is rewritten to is itself matched by \<open>%@lid\<close>.\<close>
  "chat_chain_free jid_map user_map \<longleftrightarrow>
     (\<forall>c t. chat_target jid_map user_map c = Some t \<longrightarrow> \<not> like_lid t)"

section \<open>What the passes do when no statement raises\<close>

text \<open>
  The functions of this section are not part of the script: they give the contents of the
  store after a step or a loop in which no statement raised, and the lemmas below show that
  a loop that returns has done exactly that.
\<close>

fun rewrite_row :: "(string \<Rightarrow> string option) \<Rightarrow> string list \<Rightarrow> message \<Rightarrow> message" where
  \<comment> \<open>One row under the \<open>UPDATE\<close>s of a sender loop over the listed values.\<close>
  "rewrite_row target [] m = m"
| "rewrite_row target (s # rest) m =
     rewrite_row target rest (case target s of Some t \<Rightarrow> set_sender t s m | None \<Rightarrow> m)"

definition chat_effect :: "string \<Rightarrow> string \<Rightarrow> db \<Rightarrow> db" where
  \<comment> \<open>The store after the merge or the rename of the chat \<open>c\<close> into \<open>t\<close>.\<close>
  "chat_effect c t d =
     (if t \<in> jid ` set (chats d) then
        \<lparr>chats = filter (\<lambda>x. jid x \<noteq> c) (chats d),
         messages = map (set_chat_jid t c) (filter (\<lambda>m. \<not> is_dup c c t (messages d) m) (messages d))\<rparr>
      else
        \<lparr>chats = map (set_jid t c) (chats d),
         messages = map (set_chat_jid t c) (messages d)\<rparr>)"

definition chat_step :: "lookup \<Rightarrow> lookup \<Rightarrow> string \<Rightarrow> db \<Rightarrow> db" where
  "chat_step jid_map user_map c d =
     (case chat_target jid_map user_map c of Some t \<Rightarrow> chat_effect c t d | None \<Rightarrow> d)"

definition chat_fold :: "lookup \<Rightarrow> lookup \<Rightarrow> string list \<Rightarrow> db \<Rightarrow> db" where
  "chat_fold jid_map user_map cs d = fold (chat_step jid_map user_map) cs d"

section \<open>Two worked examples\<close>

definition example_store :: db where
  "example_store =
     \<lparr>chats = [\<lparr>jid = ''555@lid'', chat_cols = ''Bob''\<rparr>,
               \<lparr>jid = ''111@lid'', chat_cols = ''Ann''\<rparr>,
               \<lparr>jid = ''222@s.whatsapp.net'', chat_cols = ''Ann''\<rparr>],
      messages =
        [\<lparr>msg_id = ''m1'', chat_jid = ''222@s.whatsapp.net'', sender = ''222@s.whatsapp.net'',
          msg_cols = ''hello''\<rparr>,
         \<lparr>msg_id = ''m1'', chat_jid = ''111@lid'', sender = ''111@lid'', msg_cols = ''hello''\<rparr>,
         \<lparr>msg_id = ''m2'', chat_jid = ''111@lid'', sender = ''111'', msg_cols = ''bye''\<rparr>,
         \<lparr>msg_id = ''m3'', chat_jid = ''555@lid'', sender = ''555@lid'', msg_cols = ''hi''\<rparr>]\<rparr>"

definition example_merged :: db where
  "example_merged =
     \<lparr>chats = [\<lparr>jid = ''555@lid'', chat_cols = ''Bob''\<rparr>,
               \<lparr>jid = ''222@s.whatsapp.net'', chat_cols = ''Ann''\<rparr>],
      messages =
        [\<lparr>msg_id = ''m1'', chat_jid = ''222@s.whatsapp.net'', sender = ''222@s.whatsapp.net'',
          msg_cols = ''hello''\<rparr>,
         \<lparr>msg_id = ''m2'', chat_jid = ''222@s.whatsapp.net'', sender = ''111'', msg_cols = ''bye''\<rparr>,
         \<lparr>msg_id = ''m3'', chat_jid = ''555@lid'', sender = ''555@lid'', msg_cols = ''hi''\<rparr>]\<rparr>"

definition example_result :: db where
  "example_result =
     \<lparr>chats = [\<lparr>jid = ''555@lid'', chat_cols = ''Bob''\<rparr>,
               \<lparr>jid = ''222@s.whatsapp.net'', chat_cols = ''Ann''\<rparr>],
      messages =
        [\<lparr>msg_id = ''m1'', chat_jid = ''222@s.whatsapp.net'', sender = ''222@s.whatsapp.net'',
          msg_cols = ''hello''\<rparr>,
         \<lparr>msg_id = ''m2'', chat_jid = ''222@s.whatsapp.net'', sender = ''222'', msg_cols = ''bye''\<rparr>,
         \<lparr>msg_id = ''m3'', chat_jid = ''555@lid'', sender = ''555@lid'', msg_cols = ''hi''\<rparr>]\<rparr>"

definition example_jid_map :: lookup where
  "example_jid_map = [''111@lid'' \<mapsto> ''222@s.whatsapp.net'']"

definition example_user_map :: lookup where
  "example_user_map = [''111'' \<mapsto> ''222'']"


definition chain_map :: "(string \<times> string) list" where
  "chain_map = [(''1'', ''2''), (''2'', ''3'')]"

definition chain_lookup :: lookup where
  "chain_lookup = [''1'' \<mapsto> ''2'', ''2'' \<mapsto> ''3'']"

definition chain_store :: "string \<Rightarrow> db" where
  "chain_store s =
     \<lparr>chats = [],
      messages = [\<lparr>msg_id = ''m1'', chat_jid = ''c@g.us'', sender = s, msg_cols = ''hello''\<rparr>]\<rparr>"

definition relay_map :: "(string \<times> string) list" where
  "relay_map = [(''1@x@lid'', ''2@lid''), (''2@lid'', ''3@s.whatsapp.net'')]"

definition relay_jid_map :: lookup where
  "relay_jid_map = [''1@x@lid'' \<mapsto> ''2@lid'', ''2@lid'' \<mapsto> ''3@s.whatsapp.net'']"

definition relay_user_map :: lookup where
  "relay_user_map = [''1'' \<mapsto> ''2'', ''2'' \<mapsto> ''3'']"

definition relay_store :: db where
  "relay_store =
     \<lparr>chats = [\<lparr>jid = ''1@x@lid'', chat_cols = ''Ann''\<rparr>, \<lparr>jid = ''2@lid'', chat_cols = ''Bob''\<rparr>],
      messages = []\<rparr>"

definition relay_result :: db where
  "relay_result = \<lparr>chats = [\<lparr>jid = ''3@s.whatsapp.net'', chat_cols = ''Bob''\<rparr>], messages = []\<rparr>"

section \<open>The duplicates that a run reports\<close>

definition dupes_removed :: "outcome list \<Rightarrow> nat" where
  \<comment> \<open>The duplicates that the merges of a chat pass report as removed.\<close>
  "dupes_removed outs =
     sum_list (map (\<lambda>out. case out of MERGED old_jid new_jid dupes moved \<Rightarrow> dupes | _ \<Rightarrow> 0) outs)"


section \<open>The mapping loader and the start of the script\<close>







section \<open>Basic facts\<close>

lemma bind_err_simps [simp]:
  "bind_err (Inl e) f = Inl e" "bind_err (Inr x) f = f x"
  by (simp_all add: bind_err_def)

lemma bind_err_Inr: "bind_err m f = Inr y \<longleftrightarrow> (\<exists>x. m = Inr x \<and> f x = Inr y)"
  by (cases m) simp_all

lemma bind_err_Inl: "bind_err m f = Inl e \<longleftrightarrow> m = Inl e \<or> (\<exists>x. m = Inr x \<and> f x = Inl e)"
  by (cases m) simp_all

lemma execute_Inr: "execute raises st d r = Inr r' \<longleftrightarrow> raises st d = None \<and> r' = r"
  by (auto simp: execute_def split: option.splits)

lemma execute_no_faults [simp]: "execute no_faults st d r = Inr r"
  by (simp add: execute_def no_faults_def)

lemmas stmt_defs = select_lid_chats_def count_chats_def dup_ids_def is_dup_def
  delete_dup_messages_def set_chat_jid_def update_messages_chat_def delete_chat_def set_jid_def
  update_chat_jid_def sql_distinct_def select_lid_senders_def select_senders_def set_sender_def
  update_messages_sender_def

lemma like_lid_suffix: "suffix ''@lid'' s \<Longrightarrow> like_lid s"
proof -
  assume "suffix ''@lid'' s"
  then obtain u where "s = u @ ''@lid''" by (auto simp: suffix_def)
  moreover have "map ascii_lower ''@lid'' = ''@lid''" by (simp add: ascii_lower_def)
  ultimately show ?thesis by (simp add: like_lid_def suffix_def)
qed

section \<open>The bare form of a chat identifier\<close>

text \<open>
  C6. The claim: the bare form of a chat identifier that ends with \<open>@lid\<close> is the
  identifier without that trailing suffix, also when \<open>@lid\<close> occurs earlier in it. The
  script removes every occurrence: for \<open>1@lid2@lid\<close> it looks up \<open>12\<close>, not \<open>1@lid2\<close>.
\<close>

theorem bare_lid_interior_occurrence:
  "suffix ''@lid'' ''1@lid2@lid'' \<and> bare_lid ''1@lid2@lid'' = ''12'' \<and> ''12'' \<noteq> ''1@lid2''"
  by (simp add: bare_lid_def suffix_to_prefix)

section \<open>The chat pass: order of the lookups\<close>

lemma select_lid_chats_mem:
  "select_lid_chats raises d = Inr cs \<Longrightarrow> c \<in> jid ` set (chats d) \<Longrightarrow> suffix ''@lid'' c
     \<Longrightarrow> c \<in> set cs"
  by (auto simp: select_lid_chats_def execute_Inr like_lid_suffix)

lemma migrate_chat_target:
  "migrate_chat raises jm um c d =
     (case chat_target jm um c of
        Some t \<Rightarrow> rewrite_chat raises c t d
      | None \<Rightarrow> Inr (NO_MAPPING c, d))"
  by (auto simp: migrate_chat_def chat_target_def Let_def dom_def split: option.splits)

lemma rewrite_chat_outcome:
  assumes "rewrite_chat raises c t d = Inr (out, d')"
  shows "(if t \<in> jid ` set (chats d) then \<exists>k m. out = MERGED c t k m else out = RENAMED c t)"
  using assms
  by (auto simp: rewrite_chat_def merge_chat_def rename_chat_def bind_err_Inr execute_Inr
      count_chats_def filter_empty_conv split: if_splits prod.splits)

text \<open>
  C2. A chat whose identifier ends with \<open>@lid\<close> is among the chats the pass goes through.
  For it the bare-user map is looked up first, whatever the full-identifier map holds; the
  full-identifier map is looked up on a miss only; with neither, the outcome is
  \<open>NO_MAPPING\<close> and the store is as before. The new identifier found this way decides the
  outcome: a merge when a chat with it exists, a rename otherwise.
\<close>

theorem chat_lookup_precedence:
  assumes "suffix ''@lid'' c"
  shows "(\<forall>lid_chats. select_lid_chats raises d = Inr lid_chats \<longrightarrow> c \<in> jid ` set (chats d)
            \<longrightarrow> c \<in> set lid_chats)
     \<and> migrate_chat raises jid_map user_map c d =
        (case user_map (bare_lid c) of
           Some phone_user \<Rightarrow> rewrite_chat raises c (phone_user @ ''@s.whatsapp.net'') d
         | None \<Rightarrow>
             (case jid_map c of
                Some new_jid \<Rightarrow> rewrite_chat raises c new_jid d
              | None \<Rightarrow> Inr (NO_MAPPING c, d)))
     \<and> (\<forall>t out d'. rewrite_chat raises c t d = Inr (out, d') \<longrightarrow>
          (if t \<in> jid ` set (chats d) then \<exists>dupes moved. out = MERGED c t dupes moved
           else out = RENAMED c t))"
proof (intro conjI allI impI)
  fix lid_chats
  assume "select_lid_chats raises d = Inr lid_chats" "c \<in> jid ` set (chats d)"
  then show "c \<in> set lid_chats"
    using assms by (rule select_lid_chats_mem)
next
  show "migrate_chat raises jid_map user_map c d =
        (case user_map (bare_lid c) of
           Some phone_user \<Rightarrow> rewrite_chat raises c (phone_user @ ''@s.whatsapp.net'') d
         | None \<Rightarrow>
             (case jid_map c of
                Some new_jid \<Rightarrow> rewrite_chat raises c new_jid d
              | None \<Rightarrow> Inr (NO_MAPPING c, d)))"
    by (auto simp: migrate_chat_def Let_def dom_def split: option.splits)
next
  fix t out d'
  assume "rewrite_chat raises c t d = Inr (out, d')"
  then show "if t \<in> jid ` set (chats d) then \<exists>dupes moved. out = MERGED c t dupes moved
           else out = RENAMED c t"
    by (rule rewrite_chat_outcome)
qed

text \<open>
  Both maps hold an entry for \<open>111@lid\<close> and they disagree: the bare-user entry gives
  \<open>999@s.whatsapp.net\<close>, which no chat has (a rename); the full-identifier entry would give
  \<open>999\<close>, which a chat has (a merge). The chat is renamed.
\<close>

theorem chat_lookup_precedence_witness:
  "suffix ''@lid'' ''111@lid''
   \<and> migrate_chat no_faults [''111@lid'' \<mapsto> ''999''] [''111'' \<mapsto> ''999''] ''111@lid''
        \<lparr>chats = [\<lparr>jid = ''111@lid'', chat_cols = ''a''\<rparr>, \<lparr>jid = ''999'', chat_cols = ''b''\<rparr>],
         messages = []\<rparr>
     = Inr (RENAMED ''111@lid'' ''999@s.whatsapp.net'',
        \<lparr>chats = [\<lparr>jid = ''999@s.whatsapp.net'', chat_cols = ''a''\<rparr>,
                  \<lparr>jid = ''999'', chat_cols = ''b''\<rparr>],
         messages = []\<rparr>)"
proof -
  have s: "suffix ''@lid'' ''111@lid''"
    by (simp add: suffix_to_prefix)
  have b: "bare_lid ''111@lid'' = ''111''"
    by (simp add: bare_lid_def suffix_to_prefix)
  note step = chat_lookup_precedence [OF s, of no_faults _ "[''111@lid'' \<mapsto> ''999'']"
      "[''111'' \<mapsto> ''999'']", THEN conjunct2, THEN conjunct1]
  show ?thesis
    by (simp add: s step b rewrite_chat_def rename_chat_def count_chats_def
        update_chat_jid_def update_messages_chat_def set_jid_def)
qed

section \<open>A failed run\<close>

lemma execute_same:
  "same_before_commit r r' \<Longrightarrow> st \<noteq> Commit \<Longrightarrow> execute r' st d x = execute r st d x"
  by (simp add: same_before_commit_def execute_def)

lemma statements_same:
  assumes "same_before_commit r r'"
  shows "select_lid_chats r' d = select_lid_chats r d"
    and "count_chats r' j d = count_chats r j d"
    and "delete_dup_messages r' c a b d = delete_dup_messages r c a b d"
    and "update_messages_chat r' new old d = update_messages_chat r new old d"
    and "delete_chat r' j d = delete_chat r j d"
    and "update_chat_jid r' new old d = update_chat_jid r new old d"
    and "select_lid_senders r' d = select_lid_senders r d"
    and "select_senders r' d = select_senders r d"
    and "update_messages_sender r' new old d = update_messages_sender r new old d"
  unfolding select_lid_chats_def count_chats_def delete_dup_messages_def update_messages_chat_def
    delete_chat_def update_chat_jid_def select_lid_senders_def select_senders_def
    update_messages_sender_def
  by (simp_all add: execute_same [OF assms])

lemma bind_err_cong:
  "m = m' \<Longrightarrow> (\<And>x. f x = f' x) \<Longrightarrow> bind_err m f = bind_err m' f'"
  by (simp add: bind_err_def split: sum.splits)

lemma migrate_chat_same:
  assumes "same_before_commit r r'"
  shows "migrate_chat r' jm um c d = migrate_chat r jm um c d"
proof -
  have m: "merge_chat r' c t d = merge_chat r c t d" for t
    unfolding merge_chat_def
    by (intro bind_err_cong) (auto simp: statements_same [OF assms])
  have n: "rename_chat r' c t d = rename_chat r c t d" for t
    unfolding rename_chat_def
    by (intro bind_err_cong) (auto simp: statements_same [OF assms])
  have "rewrite_chat r' c t d = rewrite_chat r c t d" for t
    unfolding rewrite_chat_def
    by (intro bind_err_cong) (auto simp: statements_same [OF assms] m n)
  then show ?thesis
    by (simp add: migrate_chat_def Let_def)
qed

lemma chat_loop_same:
  assumes "same_before_commit r r'"
  shows "chat_loop r' jm um cs d = chat_loop r jm um cs d"
proof (induction cs arbitrary: d)
  case Nil
  show ?case by simp
next
  case (Cons c cs)
  show ?case
    unfolding chat_loop.simps migrate_chat_same [OF assms]
    by (intro bind_err_cong) (auto simp: Cons.IH)
qed

lemma migrate_full_sender_same:
  assumes "same_before_commit r r'"
  shows "migrate_full_sender r' jm um s d = migrate_full_sender r jm um s d"
  by (simp add: migrate_full_sender_def statements_same [OF assms])

lemma full_sender_loop_same:
  assumes "same_before_commit r r'"
  shows "full_sender_loop r' jm um ss d = full_sender_loop r jm um ss d"
proof (induction ss arbitrary: d)
  case Nil
  show ?case by simp
next
  case (Cons s ss)
  show ?case
    unfolding full_sender_loop.simps migrate_full_sender_same [OF assms]
    by (intro bind_err_cong) (auto simp: Cons.IH)
qed

lemma migrate_bare_sender_same:
  assumes "same_before_commit r r'"
  shows "migrate_bare_sender r' um s d = migrate_bare_sender r um s d"
  by (simp add: migrate_bare_sender_def statements_same [OF assms])

lemma bare_sender_loop_same:
  assumes "same_before_commit r r'"
  shows "bare_sender_loop r' um ss d = bare_sender_loop r um ss d"
proof (induction ss arbitrary: d)
  case Nil
  show ?case by simp
next
  case (Cons s ss)
  show ?case
    unfolding bare_sender_loop.simps migrate_bare_sender_same [OF assms]
    by (intro bind_err_cong) (auto simp: Cons.IH)
qed

lemma passes_same:
  assumes "same_before_commit r r'"
  shows "chat_pass r' jm um d = chat_pass r jm um d"
    and "full_sender_pass r' jm um d = full_sender_pass r jm um d"
    and "bare_sender_pass r' um d = bare_sender_pass r um d"
  unfolding chat_pass_def full_sender_pass_def bare_sender_pass_def
  by (intro bind_err_cong; simp add: statements_same [OF assms] chat_loop_same [OF assms]
      full_sender_loop_same [OF assms] bare_sender_loop_same [OF assms])+

text \<open>
  C8. When a statement of the chat pass or of either sender pass raises, the migration ends
  with that error and the store file holds what it held before the run. This does not
  depend on whether the commit would have raised: the commit is not reached.
\<close>

theorem failed_run_leaves_store:
  assumes maps: "build_maps lid_map = (jid_map, user_map)"
    and conn: "raises Connect store = None"
    and fails: "chat_pass raises jid_map user_map store = Inl e
      \<or> (\<exists>outs d1. chat_pass raises jid_map user_map store = Inr (outs, d1)
           \<and> (full_sender_pass raises jid_map user_map d1 = Inl e
              \<or> (\<exists>n d2. full_sender_pass raises jid_map user_map d1 = Inr (n, d2)
                   \<and> bare_sender_pass raises user_map d2 = Inl e)))"
    and same: "same_before_commit raises raises'"
  shows "migrate_messages_db raises' store lid_map = (Inl e, store)"
proof -
  from same conn have c: "execute raises' Connect store () = Inr ()"
    by (simp add: same_before_commit_def execute_def)
  from fails have "run_passes raises' lid_map store = Inl e"
    unfolding run_passes_def c maps passes_same [OF same]
    by (auto simp: bind_err_Inl)
  then show ?thesis
    by (simp add: migrate_messages_db_def)
qed


text \<open>
  A run that fails: the chat \<open>1@lid\<close> is renamed, no chat \<open>9@s.whatsapp.net\<close> existing, but a
  message \<open>m1\<close> is already filed under that identifier, and moving the message \<open>m1\<close> of
  \<open>1@lid\<close> there violates the key. The chat row was already rewritten; the store keeps it
  as it was.
\<close>

theorem failed_run_leaves_store_witness:
  "migrate_messages_db primary_keys
     \<lparr>chats = [\<lparr>jid = ''1@lid'', chat_cols = ''Ann''\<rparr>],
      messages = [\<lparr>msg_id = ''m1'', chat_jid = ''1@lid'', sender = ''1@lid'', msg_cols = ''hi''\<rparr>,
                  \<lparr>msg_id = ''m1'', chat_jid = ''9@s.whatsapp.net'', sender = ''9@s.whatsapp.net'',
                   msg_cols = ''hi''\<rparr>]\<rparr>
     [(''1@lid'', ''9@s.whatsapp.net'')]
   = (Inl IntegrityError,
      \<lparr>chats = [\<lparr>jid = ''1@lid'', chat_cols = ''Ann''\<rparr>],
       messages = [\<lparr>msg_id = ''m1'', chat_jid = ''1@lid'', sender = ''1@lid'', msg_cols = ''hi''\<rparr>,
                   \<lparr>msg_id = ''m1'', chat_jid = ''9@s.whatsapp.net'', sender = ''9@s.whatsapp.net'',
                    msg_cols = ''hi''\<rparr>]\<rparr>)"
proof -
  let ?store = "\<lparr>chats = [\<lparr>jid = ''1@lid'', chat_cols = ''Ann''\<rparr>],
      messages = [\<lparr>msg_id = ''m1'', chat_jid = ''1@lid'', sender = ''1@lid'', msg_cols = ''hi''\<rparr>,
                  \<lparr>msg_id = ''m1'', chat_jid = ''9@s.whatsapp.net'', sender = ''9@s.whatsapp.net'',
                   msg_cols = ''hi''\<rparr>]\<rparr>"
  let ?store1 = "\<lparr>chats = [\<lparr>jid = ''9@s.whatsapp.net'', chat_cols = ''Ann''\<rparr>],
      messages = [\<lparr>msg_id = ''m1'', chat_jid = ''1@lid'', sender = ''1@lid'', msg_cols = ''hi''\<rparr>,
                  \<lparr>msg_id = ''m1'', chat_jid = ''9@s.whatsapp.net'', sender = ''9@s.whatsapp.net'',
                   msg_cols = ''hi''\<rparr>]\<rparr>"
  let ?jm = "[''1@lid'' \<mapsto> ''9@s.whatsapp.net'']"
  let ?um = "[''1'' \<mapsto> ''9'']"
  have maps: "build_maps [(''1@lid'', ''9@s.whatsapp.net'')] = (?jm, ?um)"
    by (simp add: build_maps_def user_part_def split_first_def)
  have conn: "primary_keys Connect ?store = None"
    by (simp add: primary_keys_def)
  have like: "like_lid ''1@lid''"
    by (simp add: like_lid_suffix suffix_to_prefix)
  have bare: "bare_lid ''1@lid'' = ''1''"
    by (simp add: bare_lid_def suffix_to_prefix)
  have sel: "select_lid_chats primary_keys ?store = Inr [''1@lid'']"
    by (simp add: select_lid_chats_def execute_def primary_keys_def like)
  have cnt: "count_chats primary_keys ''9@s.whatsapp.net'' ?store = Inr 0"
    by (simp add: count_chats_def execute_def primary_keys_def)
  have upd: "update_chat_jid primary_keys ''9@s.whatsapp.net'' ''1@lid'' ?store
      = Inr ?store1"
    by (simp add: update_chat_jid_def execute_def primary_keys_def set_jid_def)
  have msg: "update_messages_chat primary_keys ''9@s.whatsapp.net'' ''1@lid'' ?store1
      = Inl IntegrityError"
    by (simp add: update_messages_chat_def execute_def primary_keys_def set_chat_jid_def)
  have "migrate_chat primary_keys ?jm ?um ''1@lid'' ?store = Inl IntegrityError"
    by (simp add: migrate_chat_def Let_def bare rewrite_chat_def cnt rename_chat_def upd msg)
  then have fails: "chat_pass primary_keys ?jm ?um ?store = Inl IntegrityError"
    by (simp add: chat_pass_def sel)
  have same: "same_before_commit primary_keys primary_keys"
    by (simp add: same_before_commit_def)
  from failed_run_leaves_store [OF maps conn disjI1 same, OF fails]
  show ?thesis .
qed


section \<open>Results of the statements\<close>

lemma select_lid_chats_Inr:
  "select_lid_chats raises d = Inr cs \<Longrightarrow> cs = filter like_lid (map jid (chats d))"
  by (simp add: select_lid_chats_def execute_Inr)

lemma count_chats_Inr:
  "count_chats raises j d = Inr n \<Longrightarrow> (0 < n) = (j \<in> jid ` set (chats d))"
  by (auto simp: count_chats_def execute_Inr filter_empty_conv)

lemma delete_dup_messages_Inr:
  "delete_dup_messages raises c a b d = Inr (n, d') \<Longrightarrow>
     n = length (filter (is_dup c a b (messages d)) (messages d))
     \<and> d' = d\<lparr>messages := filter (\<lambda>m. \<not> is_dup c a b (messages d) m) (messages d)\<rparr>"
  by (simp add: delete_dup_messages_def execute_Inr)

lemma update_messages_chat_Inr:
  "update_messages_chat raises new old d = Inr (n, d') \<Longrightarrow>
     n = length (filter (\<lambda>m. chat_jid m = old) (messages d))
     \<and> d' = d\<lparr>messages := map (set_chat_jid new old) (messages d)\<rparr>"
  by (simp add: update_messages_chat_def execute_Inr)

lemma delete_chat_Inr:
  "delete_chat raises j d = Inr d' \<Longrightarrow> d' = d\<lparr>chats := filter (\<lambda>c. jid c \<noteq> j) (chats d)\<rparr>"
  by (simp add: delete_chat_def execute_Inr)

lemma update_chat_jid_Inr:
  "update_chat_jid raises new old d = Inr d' \<Longrightarrow>
     d' = d\<lparr>chats := map (set_jid new old) (chats d)\<rparr>"
  by (simp add: update_chat_jid_def execute_Inr)

lemma select_lid_senders_Inr:
  "select_lid_senders raises d = Inr ss \<Longrightarrow>
     distinct ss \<and> set ss = {s \<in> sender ` set (messages d). like_lid s}"
  unfolding select_lid_senders_def execute_Inr sql_distinct_def by auto

lemma select_senders_Inr:
  "select_senders raises d = Inr ss \<Longrightarrow> distinct ss \<and> set ss = sender ` set (messages d)"
  unfolding select_senders_def execute_Inr sql_distinct_def by auto

lemma update_messages_sender_Inr:
  "update_messages_sender raises new old d = Inr d' \<Longrightarrow>
     d' = d\<lparr>messages := map (set_sender new old) (messages d)\<rparr>"
  by (simp add: update_messages_sender_def execute_Inr)

section \<open>The sender passes: order of the lookups\<close>

lemma migrate_full_sender_Inr:
  assumes "migrate_full_sender raises jid_map user_map s d = Inr (k, d')"
  shows "d' = (case full_target jid_map user_map s of
                 Some t \<Rightarrow> d\<lparr>messages := map (set_sender t s) (messages d)\<rparr>
               | None \<Rightarrow> d)"
proof (cases "jid_map s")
  case (Some t)
  then have "s \<in> dom jid_map" by auto
  with assms Some show ?thesis
    by (auto simp: migrate_full_sender_def full_target_def bind_err_Inr
        dest: update_messages_sender_Inr)
next
  case None
  then have n: "s \<notin> dom jid_map" by auto
  show ?thesis
  proof (cases "user_map (user_part s)")
    case (Some u)
    then have "user_part s \<in> dom user_map" by auto
    with assms None n Some show ?thesis
      by (auto simp: migrate_full_sender_def full_target_def bind_err_Inr
          dest: update_messages_sender_Inr)
  next
    case None2: None
    then have "user_part s \<notin> dom user_map" by auto
    with assms None n None2 show ?thesis
      by (simp add: migrate_full_sender_def full_target_def)
  qed
qed

lemma migrate_bare_sender_Inr:
  assumes "migrate_bare_sender raises user_map s d = Inr (k, d')"
  shows "d' = (case bare_target user_map s of
                 Some t \<Rightarrow> d\<lparr>messages := map (set_sender t s) (messages d)\<rparr>
               | None \<Rightarrow> d)"
proof (cases "bare_target user_map s")
  case None
  then have "\<not> (CHR ''@'' \<notin> set s \<and> s \<in> dom user_map)"
    by (auto simp: bare_target_def split: if_splits)
  with assms None show ?thesis
    by (simp add: migrate_bare_sender_def)
next
  case (Some t)
  then have "CHR ''@'' \<notin> set s \<and> s \<in> dom user_map" "user_map s = Some t"
    by (auto simp: bare_target_def split: if_splits)
  with assms Some show ?thesis
    by (auto simp: migrate_bare_sender_def bind_err_Inr dest: update_messages_sender_Inr)
qed

text \<open>
  C3, as amended. A sender value that ends with \<open>@lid\<close> is listed once by the full
  pass. The full-identifier map is looked up first; on a hit every row with that sender gets
  the mapped identifier. The bare-user map is looked up on a miss only, and with the part of
  the sender before its first \<open>@\<close>, which is the sender less its suffix \<open>@lid\<close> only
  when that has no \<open>@\<close>; on that hit every row with that sender gets the bare mapped
  value. No other row changes.
\<close>

theorem sender_lookup_precedence:
  assumes "suffix ''@lid'' s"
    and "migrate_full_sender raises jid_map user_map s d = Inr (k, d')"
  shows "(\<forall>ss. select_lid_senders raises d = Inr ss \<longrightarrow> s \<in> sender ` set (messages d)
            \<longrightarrow> s \<in> set ss \<and> distinct ss)
     \<and> chats d' = chats d
     \<and> messages d' =
        (case jid_map s of
           Some new_sender \<Rightarrow>
             map (\<lambda>m. if sender m = s then m\<lparr>sender := new_sender\<rparr> else m) (messages d)
         | None \<Rightarrow>
             (case user_map (split_first s) of
                Some new_sender \<Rightarrow>
                  map (\<lambda>m. if sender m = s then m\<lparr>sender := new_sender\<rparr> else m) (messages d)
              | None \<Rightarrow> messages d))
     \<and> (\<forall>u. s = u @ ''@lid'' \<longrightarrow> CHR ''@'' \<notin> set u \<longrightarrow> split_first s = u)"
proof -
  from assms(1) have at: "CHR ''@'' \<in> set s"
    by (auto simp: suffix_def)
  have enum: "\<forall>ss. select_lid_senders raises d = Inr ss \<longrightarrow> s \<in> sender ` set (messages d)
            \<longrightarrow> s \<in> set ss \<and> distinct ss"
    using like_lid_suffix [OF assms(1)] by (auto dest!: select_lid_senders_Inr)
  have strip: "\<forall>u. s = u @ ''@lid'' \<longrightarrow> CHR ''@'' \<notin> set u \<longrightarrow> split_first s = u"
    by (simp add: split_first_def takeWhile_append)
  have sets: "set_sender t s = (\<lambda>m. if sender m = s then m\<lparr>sender := t\<rparr> else m)" for t
    by (rule ext) (simp add: set_sender_def)
  from at have up: "user_part s = split_first s"
    by (simp add: user_part_def)
  have eff: "chats d' = chats d \<and> messages d' =
        (case jid_map s of
           Some new_sender \<Rightarrow>
             map (\<lambda>m. if sender m = s then m\<lparr>sender := new_sender\<rparr> else m) (messages d)
         | None \<Rightarrow>
             (case user_map (split_first s) of
                Some new_sender \<Rightarrow>
                  map (\<lambda>m. if sender m = s then m\<lparr>sender := new_sender\<rparr> else m) (messages d)
              | None \<Rightarrow> messages d))"
    unfolding migrate_full_sender_Inr [OF assms(2)] full_target_def up sets
    by (simp split: option.splits)
  from enum strip eff show ?thesis by blast
qed

theorem sender_lookup_precedence_witness:
  "suffix ''@lid'' ''5@lid''
   \<and> migrate_full_sender no_faults Map.empty [''5'' \<mapsto> ''7''] ''5@lid''
        \<lparr>chats = [], messages =
          [\<lparr>msg_id = ''m1'', chat_jid = ''c'', sender = ''5@lid'', msg_cols = ''x''\<rparr>,
           \<lparr>msg_id = ''m2'', chat_jid = ''c'', sender = ''6@lid'', msg_cols = ''y''\<rparr>,
           \<lparr>msg_id = ''m3'', chat_jid = ''e'', sender = ''5@lid'', msg_cols = ''z''\<rparr>]\<rparr>
     = Inr (1, \<lparr>chats = [], messages =
          [\<lparr>msg_id = ''m1'', chat_jid = ''c'', sender = ''7'', msg_cols = ''x''\<rparr>,
           \<lparr>msg_id = ''m2'', chat_jid = ''c'', sender = ''6@lid'', msg_cols = ''y''\<rparr>,
           \<lparr>msg_id = ''m3'', chat_jid = ''e'', sender = ''7'', msg_cols = ''z''\<rparr>]\<rparr>)
   \<and> split_first ''5@lid'' = ''5''"
proof -
  have s: "suffix ''@lid'' ''5@lid''"
    by (simp add: suffix_to_prefix)
  have u: "user_part ''5@lid'' = ''5''"
    by (simp add: user_part_def split_first_def)
  have r: "migrate_full_sender no_faults Map.empty [''5'' \<mapsto> ''7''] ''5@lid''
        \<lparr>chats = [], messages =
          [\<lparr>msg_id = ''m1'', chat_jid = ''c'', sender = ''5@lid'', msg_cols = ''x''\<rparr>,
           \<lparr>msg_id = ''m2'', chat_jid = ''c'', sender = ''6@lid'', msg_cols = ''y''\<rparr>,
           \<lparr>msg_id = ''m3'', chat_jid = ''e'', sender = ''5@lid'', msg_cols = ''z''\<rparr>]\<rparr>
     = Inr (1, \<lparr>chats = [], messages =
          [\<lparr>msg_id = ''m1'', chat_jid = ''c'', sender = ''7'', msg_cols = ''x''\<rparr>,
           \<lparr>msg_id = ''m2'', chat_jid = ''c'', sender = ''6@lid'', msg_cols = ''y''\<rparr>,
           \<lparr>msg_id = ''m3'', chat_jid = ''e'', sender = ''7'', msg_cols = ''z''\<rparr>]\<rparr>)"
    by (simp add: migrate_full_sender_def u update_messages_sender_def set_sender_def)
  note sender_lookup_precedence [OF s r, THEN conjunct2, THEN conjunct2, THEN conjunct2]
  then have "split_first ''5@lid'' = ''5''" by simp
  with s r show ?thesis by simp
qed

text \<open>
  C3 as worded looks up the bare-user map with the sender less its suffix \<open>@lid\<close>. Line 110
  cuts the sender at its first \<open>@\<close> instead. The sender \<open>1@x@lid\<close> is \<open>1@x\<close> with the
  suffix; with the one mapping entry \<open>1@lid\<close> neither map has the sender and the bare-user
  map has no \<open>1@x\<close>, yet the row is rewritten, to the value that the bare-user map has for
  \<open>1\<close>.
\<close>

theorem sender_stripped_key_counterexample:
  "suffix ''@lid'' ''1@x@lid'' \<and> ''1@x@lid'' = ''1@x'' @ ''@lid''
   \<and> build_maps [(''1@lid'', ''9@s.whatsapp.net'')]
       = ([''1@lid'' \<mapsto> ''9@s.whatsapp.net''], [''1'' \<mapsto> ''9''])
   \<and> [''1@lid'' \<mapsto> ''9@s.whatsapp.net''] ''1@x@lid'' = None
   \<and> [''1'' \<mapsto> ''9''] ''1@x'' = None
   \<and> select_lid_senders no_faults
        \<lparr>chats = [], messages =
          [\<lparr>msg_id = ''m1'', chat_jid = ''c@g.us'', sender = ''1@x@lid'', msg_cols = ''hello''\<rparr>]\<rparr>
       = Inr [''1@x@lid'']
   \<and> migrate_full_sender no_faults [''1@lid'' \<mapsto> ''9@s.whatsapp.net''] [''1'' \<mapsto> ''9'']
        ''1@x@lid''
        \<lparr>chats = [], messages =
          [\<lparr>msg_id = ''m1'', chat_jid = ''c@g.us'', sender = ''1@x@lid'', msg_cols = ''hello''\<rparr>]\<rparr>
       = Inr (1, \<lparr>chats = [], messages =
          [\<lparr>msg_id = ''m1'', chat_jid = ''c@g.us'', sender = ''9'', msg_cols = ''hello''\<rparr>]\<rparr>)"
proof -
  have s: "suffix ''@lid'' ''1@x@lid''"
    by (simp add: suffix_to_prefix)
  have u: "user_part ''1@x@lid'' = ''1''" "user_part ''1@lid'' = ''1''"
    "user_part ''9@s.whatsapp.net'' = ''9''"
    by (simp_all add: user_part_def split_first_def)
  have maps: "build_maps [(''1@lid'', ''9@s.whatsapp.net'')]
       = ([''1@lid'' \<mapsto> ''9@s.whatsapp.net''], [''1'' \<mapsto> ''9''])"
    by (simp add: build_maps_def u)
  have like: "like_lid ''1@x@lid''"
    by (simp add: like_lid_def ascii_lower_def suffix_to_prefix)
  have sel: "select_lid_senders no_faults
        \<lparr>chats = [], messages =
          [\<lparr>msg_id = ''m1'', chat_jid = ''c@g.us'', sender = ''1@x@lid'', msg_cols = ''hello''\<rparr>]\<rparr>
       = Inr [''1@x@lid'']"
    by (simp add: select_lid_senders_def sql_distinct_def like)
  have r: "migrate_full_sender no_faults [''1@lid'' \<mapsto> ''9@s.whatsapp.net''] [''1'' \<mapsto> ''9'']
        ''1@x@lid''
        \<lparr>chats = [], messages =
          [\<lparr>msg_id = ''m1'', chat_jid = ''c@g.us'', sender = ''1@x@lid'', msg_cols = ''hello''\<rparr>]\<rparr>
       = Inr (1, \<lparr>chats = [], messages =
          [\<lparr>msg_id = ''m1'', chat_jid = ''c@g.us'', sender = ''9'', msg_cols = ''hello''\<rparr>]\<rparr>)"
    by (simp add: migrate_full_sender_def u update_messages_sender_def set_sender_def)
  from s maps sel r show ?thesis by simp
qed


section \<open>The sender loops as functions on rows\<close>

lemma full_sender_loop_Inr:
  "full_sender_loop raises jm um ss d = Inr (n, d') \<Longrightarrow>
     d' = d\<lparr>messages := map (rewrite_row (full_target jm um) ss) (messages d)\<rparr>"
proof (induction ss arbitrary: d n)
  case Nil
  then show ?case by simp
next
  case (Cons s ss)
  from Cons.prems obtain k d1 n1
    where step: "migrate_full_sender raises jm um s d = Inr (k, d1)"
      and rest: "full_sender_loop raises jm um ss d1 = Inr (n1, d')"
    by (auto simp: bind_err_Inr)
  note d1 = migrate_full_sender_Inr [OF step]
  show ?case
    unfolding Cons.IH [OF rest] d1
    by (cases "full_target jm um s") (simp_all add: comp_def)
qed

lemma bare_sender_loop_Inr:
  "bare_sender_loop raises um ss d = Inr (n, d') \<Longrightarrow>
     d' = d\<lparr>messages := map (rewrite_row (bare_target um) ss) (messages d)\<rparr>"
proof (induction ss arbitrary: d n)
  case Nil
  then show ?case by simp
next
  case (Cons s ss)
  from Cons.prems obtain k d1 n1
    where step: "migrate_bare_sender raises um s d = Inr (k, d1)"
      and rest: "bare_sender_loop raises um ss d1 = Inr (n1, d')"
    by (auto simp: bind_err_Inr)
  note d1 = migrate_bare_sender_Inr [OF step]
  show ?case
    unfolding Cons.IH [OF rest] d1
    by (cases "bare_target um s") (simp_all add: comp_def)
qed

lemma set_sender_cols [simp]:
  "msg_id (set_sender t s m) = msg_id m" "chat_jid (set_sender t s m) = chat_jid m"
  "msg_cols (set_sender t s m) = msg_cols m"
  by (simp_all add: set_sender_def)

lemma rewrite_row_cols [simp]:
  "msg_id (rewrite_row tg ss m) = msg_id m" "chat_jid (rewrite_row tg ss m) = chat_jid m"
  "msg_cols (rewrite_row tg ss m) = msg_cols m"
  by (induction ss arbitrary: m; simp split: option.splits)+

lemma rewrite_row_frame:
  "sender m \<notin> set ss \<or> tg (sender m) = None \<Longrightarrow> rewrite_row tg ss m = m"
proof (induction ss)
  case Nil
  show ?case by simp
next
  case (Cons s ss)
  then have "tg s = None \<or> sender m \<noteq> s" by auto
  then have "(case tg s of Some t \<Rightarrow> set_sender t s m | None \<Rightarrow> m) = m"
    by (auto simp: set_sender_def split: option.splits)
  with Cons show ?case by auto
qed

lemma rewrite_row_exact:
  assumes "\<forall>s \<in> set ss. \<forall>t. tg s = Some t \<longrightarrow> t \<in> set ss \<longrightarrow> tg t = None"
    and "sender m \<in> set ss"
  shows "rewrite_row tg ss m = m\<lparr>sender := (case tg (sender m) of Some t \<Rightarrow> t | None \<Rightarrow> sender m)\<rparr>"
  using assms
proof (induction ss)
  case Nil
  then show ?case by simp
next
  case (Cons s ss)
  show ?case
  proof (cases "sender m = s")
    case True
    show ?thesis
    proof (cases "tg s")
      case None
      with True show ?thesis
        by (simp add: rewrite_row_frame)
    next
      case (Some t)
      with Cons.prems(1) have "t \<notin> set ss \<or> tg t = None" by auto
      then have "rewrite_row tg ss (m\<lparr>sender := t\<rparr>) = m\<lparr>sender := t\<rparr>"
        by (intro rewrite_row_frame) simp
      with True Some show ?thesis
        by (simp add: set_sender_def)
    qed
  next
    case False
    with Cons.prems(2) have in_rest: "sender m \<in> set ss" by simp
    from Cons.prems(1)
    have "\<forall>s \<in> set ss. \<forall>t. tg s = Some t \<longrightarrow> t \<in> set ss \<longrightarrow> tg t = None"
      by (meson list.set_intros(2))
    from Cons.IH [OF this in_rest] False show ?thesis
      by (simp add: set_sender_def split: option.splits)
  qed
qed

lemma ascii_lower_at: "ascii_lower c = CHR ''@'' \<Longrightarrow> c = CHR ''@''"
proof -
  assume a: "ascii_lower c = CHR ''@''"
  show ?thesis
  proof (cases "map_of (zip ''ABCDEFGHIJKLMNOPQRSTUVWXYZ'' ''abcdefghijklmnopqrstuvwxyz'') c")
    case None
    with a show ?thesis by (simp add: ascii_lower_def)
  next
    case (Some l)
    then have "l \<in> set ''abcdefghijklmnopqrstuvwxyz''"
      by (meson in_set_zipE map_of_SomeD)
    moreover from a Some have "l = CHR ''@''" by (simp add: ascii_lower_def)
    ultimately show ?thesis by simp
  qed
qed

lemma like_lid_at: "like_lid s \<Longrightarrow> CHR ''@'' \<in> set s"
proof -
  assume "like_lid s"
  then obtain u where "map ascii_lower s = u @ ''@lid''"
    by (auto simp: like_lid_def suffix_def)
  then have "CHR ''@'' \<in> set (map ascii_lower s)" by simp
  then obtain c where "c \<in> set s" "ascii_lower c = CHR ''@''" by auto
  then show ?thesis by (auto dest: ascii_lower_at)
qed

lemma like_lid_bare_target: "like_lid s \<Longrightarrow> bare_target um s = None"
  by (simp add: bare_target_def like_lid_at)

lemma sender_target_None_bare: "sender_target jm um s = None \<Longrightarrow> bare_target um s = None"
  by (cases "like_lid s") (simp_all add: sender_target_def like_lid_bare_target)

lemma full_sender_pass_Inr:
  assumes "full_sender_pass raises jm um d = Inr (n, d')"
  shows "d' = d\<lparr>messages := map (rewrite_row (full_target jm um)
            (sql_distinct (filter like_lid (map sender (messages d))))) (messages d)\<rparr>"
  using assms
  by (auto simp: full_sender_pass_def bind_err_Inr select_lid_senders_def execute_Inr
      dest: full_sender_loop_Inr)

lemma bare_sender_pass_Inr:
  assumes "bare_sender_pass raises um d = Inr (n, d')"
  shows "d' = d\<lparr>messages := map (rewrite_row (bare_target um)
            (sql_distinct (map sender (messages d)))) (messages d)\<rparr>"
  using assms
  by (auto simp: bare_sender_pass_def bind_err_Inr select_senders_def execute_Inr
      dest: bare_sender_loop_Inr)

lemma set_sql_distinct [simp]: "set (sql_distinct xs) = set xs"
  by (simp add: sql_distinct_def)

lemma full_row_frame:
  assumes "sender_target jm um (sender m) = None"
  shows "rewrite_row (full_target jm um) (sql_distinct (filter like_lid ss)) m = m"
proof (rule rewrite_row_frame)
  from assms show "sender m \<notin> set (sql_distinct (filter like_lid ss))
      \<or> full_target jm um (sender m) = None"
    by (cases "like_lid (sender m)") (simp_all add: sender_target_def)
qed

lemma bare_row_frame:
  assumes "sender_target jm um (sender m) = None"
  shows "rewrite_row (bare_target um) ss m = m"
  by (rule rewrite_row_frame) (simp add: sender_target_None_bare [OF assms])

lemma full_row_exact:
  assumes free: "sender_chain_free jm um"
    and m: "sender m \<in> set ss"
  shows "rewrite_row (full_target jm um) (sql_distinct (filter like_lid ss)) m
     = m\<lparr>sender := (if like_lid (sender m) then sender_after jm um (sender m) else sender m)\<rparr>"
proof (cases "like_lid (sender m)")
  case False
  then have "rewrite_row (full_target jm um) (sql_distinct (filter like_lid ss)) m = m"
    by (intro rewrite_row_frame) simp
  with False show ?thesis by simp
next
  case True
  have chain: "\<forall>s \<in> set (sql_distinct (filter like_lid ss)). \<forall>t. full_target jm um s = Some t
      \<longrightarrow> t \<in> set (sql_distinct (filter like_lid ss)) \<longrightarrow> full_target jm um t = None"
  proof (intro ballI allI impI)
    fix s t
    assume s: "s \<in> set (sql_distinct (filter like_lid ss))"
      and st: "full_target jm um s = Some t"
      and t: "t \<in> set (sql_distinct (filter like_lid ss))"
    from s st have "sender_target jm um s = Some t" by (simp add: sender_target_def)
    with free have "sender_target jm um t = None" by (auto simp: sender_chain_free_def)
    with t show "full_target jm um t = None" by (simp add: sender_target_def)
  qed
  from True m have "sender m \<in> set (sql_distinct (filter like_lid ss))" by simp
  from rewrite_row_exact [OF chain this] True show ?thesis
    by (simp add: sender_after_def sender_target_def)
qed

lemma bare_row_exact:
  assumes free: "sender_chain_free jm um"
    and m: "sender m \<in> set ss"
  shows "rewrite_row (bare_target um) (sql_distinct ss) m
     = m\<lparr>sender := (case bare_target um (sender m) of Some t \<Rightarrow> t | None \<Rightarrow> sender m)\<rparr>"
proof -
  have chain: "\<forall>s \<in> set (sql_distinct ss). \<forall>t. bare_target um s = Some t
      \<longrightarrow> t \<in> set (sql_distinct ss) \<longrightarrow> bare_target um t = None"
  proof (intro ballI allI impI)
    fix s t
    assume st: "bare_target um s = Some t"
    then have "\<not> like_lid s" using like_lid_bare_target [of s um] by auto
    with st have "sender_target jm um s = Some t" by (simp add: sender_target_def)
    with free have "sender_target jm um t = None" by (auto simp: sender_chain_free_def)
    then show "bare_target um t = None" by (rule sender_target_None_bare)
  qed
  from m have "sender m \<in> set (sql_distinct ss)" by simp
  from rewrite_row_exact [OF chain this] show ?thesis .
qed

lemma both_rows_exact:
  assumes free: "sender_chain_free jm um"
  shows "(case bare_target um (if like_lid s then sender_after jm um s else s) of
           Some t \<Rightarrow> t | None \<Rightarrow> (if like_lid s then sender_after jm um s else s))
     = sender_after jm um s"
proof (cases "like_lid s")
  case False
  then show ?thesis by (simp add: sender_after_def sender_target_def)
next
  case True
  show ?thesis
  proof (cases "sender_target jm um s")
    case None
    with True show ?thesis
      by (simp add: sender_after_def like_lid_bare_target)
  next
    case (Some t)
    with free have "sender_target jm um t = None" by (auto simp: sender_chain_free_def)
    then have "bare_target um t = None" by (rule sender_target_None_bare)
    with True Some show ?thesis by (simp add: sender_after_def)
  qed
qed

lemma sender_passes_exact:
  assumes free: "sender_chain_free jm um"
    and full: "full_sender_pass raises jm um d1 = Inr (n, d2)"
    and bare: "bare_sender_pass raises um d2 = Inr (b, d3)"
  shows "chats d3 = chats d1
     \<and> messages d3 = map (\<lambda>m. m\<lparr>sender := sender_after jm um (sender m)\<rparr>) (messages d1)"
proof -
  define f1 where "f1 s = (if like_lid s then sender_after jm um s else s)" for s
  define f2 where "f2 s = (case bare_target um s of Some t \<Rightarrow> t | None \<Rightarrow> s)" for s
  have m2: "messages d2 = map (\<lambda>m. m\<lparr>sender := f1 (sender m)\<rparr>) (messages d1)"
    unfolding full_sender_pass_Inr [OF full] f1_def
    by (simp add: full_row_exact [OF free])
  have m3: "messages d3 = map (\<lambda>m. m\<lparr>sender := f2 (sender m)\<rparr>) (messages d2)"
    unfolding bare_sender_pass_Inr [OF bare] f2_def
    by (simp add: bare_row_exact [OF free])
  have both: "f2 (f1 s) = sender_after jm um s" for s
    unfolding f1_def f2_def by (rule both_rows_exact [OF free])
  have "messages d3 = map (\<lambda>m. m\<lparr>sender := f2 (f1 (sender m))\<rparr>) (messages d1)"
    unfolding m3 m2 by (simp add: comp_def)
  then have "messages d3 = map (\<lambda>m. m\<lparr>sender := sender_after jm um (sender m)\<rparr>) (messages d1)"
    by (simp add: both)
  moreover have "chats d3 = chats d1"
    unfolding bare_sender_pass_Inr [OF bare] full_sender_pass_Inr [OF full] by simp
  ultimately show ?thesis by simp
qed

lemma sender_passes_frame:
  assumes full: "full_sender_pass raises jm um d1 = Inr (n, d2)"
    and bare: "bare_sender_pass raises um d2 = Inr (b, d3)"
  shows "chats d3 = chats d1 \<and> (\<exists>F. messages d3 = map F (messages d1)
     \<and> (\<forall>m. msg_id (F m) = msg_id m \<and> chat_jid (F m) = chat_jid m \<and> msg_cols (F m) = msg_cols m
            \<and> (sender_target jm um (sender m) = None \<longrightarrow> F m = m)))"
proof -
  let ?s1 = "sql_distinct (filter like_lid (map sender (messages d1)))"
  let ?s2 = "sql_distinct (map sender (messages d2))"
  let ?F = "\<lambda>m. rewrite_row (bare_target um) ?s2 (rewrite_row (full_target jm um) ?s1 m)"
  have "messages d3 = map ?F (messages d1)"
    unfolding bare_sender_pass_Inr [OF bare]
    by (simp add: full_sender_pass_Inr [OF full] comp_def)
  moreover have "\<forall>m. msg_id (?F m) = msg_id m \<and> chat_jid (?F m) = chat_jid m
      \<and> msg_cols (?F m) = msg_cols m \<and> (sender_target jm um (sender m) = None \<longrightarrow> ?F m = m)"
    by (simp add: full_row_frame bare_row_frame)
  moreover have "chats d3 = chats d1"
    unfolding bare_sender_pass_Inr [OF bare] full_sender_pass_Inr [OF full] by simp
  ultimately show ?thesis by blast
qed

section \<open>The chat loop as a function on the store\<close>

lemma rewrite_chat_Inr:
  assumes "rewrite_chat raises c t d = Inr (out, d')"
  shows "d' = chat_effect c t d"
proof -
  from assms obtain n where cnt: "count_chats raises t d = Inr n"
    and br: "(if 0 < n then merge_chat raises c t d else rename_chat raises c t d) = Inr (out, d')"
    by (auto simp: rewrite_chat_def bind_err_Inr)
  note ex = count_chats_Inr [OF cnt]
  show ?thesis
  proof (cases "t \<in> jid ` set (chats d)")
    case True
    with ex br have "merge_chat raises c t d = Inr (out, d')" by simp
    then obtain k d1 mv d2 where
      a: "delete_dup_messages raises c c t d = Inr (k, d1)" and
      b: "update_messages_chat raises t c d1 = Inr (mv, d2)" and
      e: "delete_chat raises c d2 = Inr d'"
      by (auto simp: merge_chat_def bind_err_Inr)
    from delete_dup_messages_Inr [OF a] update_messages_chat_Inr [OF b] delete_chat_Inr [OF e]
      True
    show ?thesis by (simp add: chat_effect_def)
  next
    case False
    with ex br have "rename_chat raises c t d = Inr (out, d')" by simp
    then obtain d1 mv where
      a: "update_chat_jid raises t c d = Inr d1" and
      b: "update_messages_chat raises t c d1 = Inr (mv, d')"
      by (auto simp: rename_chat_def bind_err_Inr)
    from update_chat_jid_Inr [OF a] update_messages_chat_Inr [OF b] False
    show ?thesis by (simp add: chat_effect_def)
  qed
qed

lemma migrate_chat_Inr:
  assumes "migrate_chat raises jm um c d = Inr (out, d')"
  shows "d' = chat_step jm um c d"
    and "chat_target jm um c = None \<Longrightarrow> out = NO_MAPPING c"
  using assms
  by (auto simp: migrate_chat_target chat_step_def split: option.splits dest: rewrite_chat_Inr)

lemma chat_loop_Inr:
  "chat_loop raises jm um cs d = Inr (outs, d') \<Longrightarrow>
     d' = chat_fold jm um cs d
     \<and> (\<forall>c \<in> set cs. chat_target jm um c = None \<longrightarrow> NO_MAPPING c \<in> set outs)"
proof (induction cs arbitrary: d outs)
  case Nil
  then show ?case by (simp add: chat_fold_def)
next
  case (Cons c cs)
  from Cons.prems obtain out d1 outs1
    where step: "migrate_chat raises jm um c d = Inr (out, d1)"
      and rest: "chat_loop raises jm um cs d1 = Inr (outs1, d')"
      and outs: "outs = out # outs1"
    by (auto simp: bind_err_Inr)
  from Cons.IH [OF rest] migrate_chat_Inr [OF step] outs show ?case
    by (auto simp: chat_fold_def)
qed

lemma chat_pass_Inr:
  assumes "chat_pass raises jm um d = Inr (outs, d')"
  shows "d' = chat_fold jm um (filter like_lid (map jid (chats d))) d"
    and "\<forall>c \<in> jid ` set (chats d). like_lid c \<longrightarrow> chat_target jm um c = None
           \<longrightarrow> NO_MAPPING c \<in> set outs"
proof -
  from assms obtain cs where sel: "select_lid_chats raises d = Inr cs"
    and loop: "chat_loop raises jm um cs d = Inr (outs, d')"
    by (auto simp: chat_pass_def bind_err_Inr)
  note cs = select_lid_chats_Inr [OF sel]
  from chat_loop_Inr [OF loop] cs
  show "d' = chat_fold jm um (filter like_lid (map jid (chats d))) d" by simp
  from chat_loop_Inr [OF loop] cs
  show "\<forall>c \<in> jid ` set (chats d). like_lid c \<longrightarrow> chat_target jm um c = None
           \<longrightarrow> NO_MAPPING c \<in> set outs" by auto
qed

lemma run_passes_Inr:
  assumes "run_passes raises lid_map store = Inr (rep, store')"
    and "build_maps lid_map = (jm, um)"
  shows "\<exists>outs d1 n d2 b. chat_pass raises jm um store = Inr (outs, d1)
     \<and> full_sender_pass raises jm um d1 = Inr (n, d2)
     \<and> bare_sender_pass raises um d2 = Inr (b, store')
     \<and> rep = \<lparr>outcomes = outs, senders_updated = n, bare_updated = b\<rparr>"
  using assms
  by (auto simp: run_passes_def bind_err_Inr execute_Inr)

lemma migrate_messages_db_Inr:
  "migrate_messages_db raises store lid_map = (Inr rep, store')
     \<longleftrightarrow> run_passes raises lid_map store = Inr (rep, store')"
  by (auto simp: migrate_messages_db_def split: sum.splits)

lemma migrate_messages_db_Inl:
  "fst (migrate_messages_db raises store lid_map) = Inl e
     \<Longrightarrow> snd (migrate_messages_db raises store lid_map) = store"
  by (auto simp: migrate_messages_db_def split: sum.splits)

lemma set_chat_jid_cols [simp]:
  "msg_id (set_chat_jid t c m) = msg_id m" "sender (set_chat_jid t c m) = sender m"
  "msg_cols (set_chat_jid t c m) = msg_cols m"
  "chat_jid (set_chat_jid t c m) = (if chat_jid m = c then t else chat_jid m)"
  by (simp_all add: set_chat_jid_def)

lemma chat_fold_Cons [simp]:
  "chat_fold jm um (c # cs) d = chat_fold jm um cs (chat_step jm um c d)"
  "chat_fold jm um [] d = d"
  by (simp_all add: chat_fold_def)

lemma chat_step_None [simp]: "chat_target jm um c = None \<Longrightarrow> chat_step jm um c d = d"
  by (simp add: chat_step_def)

lemma chat_step_rows:
  "\<exists>F Q. messages (chat_step jm um c d) = map F (filter Q (messages d))
     \<and> (\<forall>m. msg_id (F m) = msg_id m \<and> sender (F m) = sender m \<and> msg_cols (F m) = msg_cols m
          \<and> (chat_jid m \<noteq> c \<or> chat_target jm um c = None \<longrightarrow> Q m \<and> F m = m))"
proof (cases "chat_target jm um c")
  case None
  then have "messages (chat_step jm um c d) = map (\<lambda>m. m) (filter (\<lambda>m. True) (messages d))"
    by simp
  then show ?thesis by blast
next
  case (Some t)
  show ?thesis
  proof (cases "t \<in> jid ` set (chats d)")
    case True
    let ?Q = "\<lambda>m. \<not> is_dup c c t (messages d) m"
    from Some True
    have "messages (chat_step jm um c d) = map (set_chat_jid t c) (filter ?Q (messages d))"
      by (simp add: chat_step_def chat_effect_def)
    moreover have "\<forall>m. msg_id (set_chat_jid t c m) = msg_id m
        \<and> sender (set_chat_jid t c m) = sender m \<and> msg_cols (set_chat_jid t c m) = msg_cols m
        \<and> (chat_jid m \<noteq> c \<or> chat_target jm um c = None \<longrightarrow> ?Q m \<and> set_chat_jid t c m = m)"
      using Some by (simp add: is_dup_def set_chat_jid_def)
    ultimately show ?thesis by blast
  next
    case False
    with Some
    have "messages (chat_step jm um c d)
        = map (set_chat_jid t c) (filter (\<lambda>m. True) (messages d))"
      by (simp add: chat_step_def chat_effect_def)
    moreover have "\<forall>m. msg_id (set_chat_jid t c m) = msg_id m
        \<and> sender (set_chat_jid t c m) = sender m \<and> msg_cols (set_chat_jid t c m) = msg_cols m
        \<and> (chat_jid m \<noteq> c \<or> chat_target jm um c = None \<longrightarrow> True \<and> set_chat_jid t c m = m)"
      using Some by (simp add: set_chat_jid_def)
    ultimately show ?thesis by blast
  qed
qed

lemma chat_fold_rows:
  "\<exists>F Q. messages (chat_fold jm um cs d) = map F (filter Q (messages d))
     \<and> (\<forall>m. msg_id (F m) = msg_id m \<and> sender (F m) = sender m \<and> msg_cols (F m) = msg_cols m
          \<and> (chat_jid m \<notin> set cs \<or> chat_target jm um (chat_jid m) = None \<longrightarrow> Q m \<and> F m = m))"
proof (induction cs arbitrary: d)
  case Nil
  have "messages (chat_fold jm um [] d) = map (\<lambda>m. m) (filter (\<lambda>m. True) (messages d))"
    by simp
  then show ?case by blast
next
  case (Cons c cs)
  from chat_step_rows [of jm um c d] obtain F Q where
    s1: "messages (chat_step jm um c d) = map F (filter Q (messages d))" and
    s2: "\<And>m. msg_id (F m) = msg_id m \<and> sender (F m) = sender m \<and> msg_cols (F m) = msg_cols m
          \<and> (chat_jid m \<noteq> c \<or> chat_target jm um c = None \<longrightarrow> Q m \<and> F m = m)"
    by blast
  from Cons.IH [of "chat_step jm um c d"] obtain F' Q' where
    r1: "messages (chat_fold jm um cs (chat_step jm um c d))
          = map F' (filter Q' (messages (chat_step jm um c d)))" and
    r2: "\<And>m. msg_id (F' m) = msg_id m \<and> sender (F' m) = sender m \<and> msg_cols (F' m) = msg_cols m
          \<and> (chat_jid m \<notin> set cs \<or> chat_target jm um (chat_jid m) = None \<longrightarrow> Q' m \<and> F' m = m)"
    by blast
  have "messages (chat_fold jm um (c # cs) d)
      = map (\<lambda>m. F' (F m)) (filter (\<lambda>m. Q m \<and> Q' (F m)) (messages d))"
    by (simp add: r1 s1 filter_map comp_def conj_commute)
  moreover have "\<forall>m. msg_id (F' (F m)) = msg_id m \<and> sender (F' (F m)) = sender m
      \<and> msg_cols (F' (F m)) = msg_cols m
      \<and> (chat_jid m \<notin> set (c # cs) \<or> chat_target jm um (chat_jid m) = None
           \<longrightarrow> (Q m \<and> Q' (F m)) \<and> F' (F m) = m)"
  proof (intro allI conjI impI)
    fix m
    show "msg_id (F' (F m)) = msg_id m" "sender (F' (F m)) = sender m"
      "msg_cols (F' (F m)) = msg_cols m"
      using s2 [of m] r2 [of "F m"] by simp_all
    assume a: "chat_jid m \<notin> set (c # cs) \<or> chat_target jm um (chat_jid m) = None"
    then have "chat_jid m \<noteq> c \<or> chat_target jm um c = None" by auto
    with s2 [of m] have f: "Q m" "F m = m" by auto
    from a have "chat_jid m \<notin> set cs \<or> chat_target jm um (chat_jid m) = None" by auto
    with r2 [of m] have f': "Q' m" "F' m = m" by auto
    from f f' show "Q m" "Q' (F m)" "F' (F m) = m" by simp_all
  qed
  ultimately show ?case by blast
qed

lemma chat_step_chat_frame:
  assumes "c0 \<in> jid ` set (chats d)"
    and "c \<noteq> c0 \<or> chat_target jm um c = None"
  shows "filter (\<lambda>x. jid x = c0) (chats (chat_step jm um c d)) = filter (\<lambda>x. jid x = c0) (chats d)"
proof (cases "chat_target jm um c")
  case None
  then show ?thesis by simp
next
  case (Some t)
  with assms(2) have ne: "c \<noteq> c0" by auto
  show ?thesis
  proof (cases "t \<in> jid ` set (chats d)")
    case True
    with Some have "chats (chat_step jm um c d) = filter (\<lambda>x. jid x \<noteq> c) (chats d)"
      by (simp add: chat_step_def chat_effect_def)
    with ne show ?thesis
      by (auto intro: filter_cong)
  next
    case False
    with assms(1) have t: "t \<noteq> c0" by auto
    from Some False have "chats (chat_step jm um c d) = map (set_jid t c) (chats d)"
      by (simp add: chat_step_def chat_effect_def)
    then have "filter (\<lambda>x. jid x = c0) (chats (chat_step jm um c d))
        = map (set_jid t c) (filter (\<lambda>x. jid (set_jid t c x) = c0) (chats d))"
      by (simp add: filter_map comp_def)
    also have "filter (\<lambda>x. jid (set_jid t c x) = c0) (chats d) = filter (\<lambda>x. jid x = c0) (chats d)"
      using ne t by (intro filter_cong) (auto simp: set_jid_def)
    also have "map (set_jid t c) (filter (\<lambda>x. jid x = c0) (chats d))
        = filter (\<lambda>x. jid x = c0) (chats d)"
      using ne by (intro map_idI) (auto simp: set_jid_def)
    finally show ?thesis .
  qed
qed

lemma jid_mem_filter: "c0 \<in> jid ` set xs \<longleftrightarrow> filter (\<lambda>x. jid x = c0) xs \<noteq> []"
  by (auto simp: filter_empty_conv)

lemma chat_fold_chat_frame:
  assumes "c0 \<in> jid ` set (chats d)"
    and "c0 \<notin> set cs \<or> chat_target jm um c0 = None"
  shows "filter (\<lambda>x. jid x = c0) (chats (chat_fold jm um cs d)) = filter (\<lambda>x. jid x = c0) (chats d)"
  using assms
proof (induction cs arbitrary: d)
  case Nil
  show ?case by simp
next
  case (Cons c cs)
  from Cons.prems(2) have c: "c \<noteq> c0 \<or> chat_target jm um c = None" by auto
  note step = chat_step_chat_frame [OF Cons.prems(1) c]
  from Cons.prems(1) step have "c0 \<in> jid ` set (chats (chat_step jm um c d))"
    unfolding jid_mem_filter by simp
  moreover from Cons.prems(2) have "c0 \<notin> set cs \<or> chat_target jm um c0 = None" by auto
  ultimately show ?case
    using Cons.IH step by simp
qed

lemma chat_step_jids:
  assumes "chat_target jm um c = Some t"
  shows "jid ` set (chats (chat_step jm um c d)) \<subseteq> (jid ` set (chats d) - {c}) \<union> {t}"
    and "chat_jid ` set (messages (chat_step jm um c d))
           \<subseteq> (chat_jid ` set (messages d) - {c}) \<union> {t}"
  using assms
  by (auto simp: chat_step_def chat_effect_def set_jid_def split: if_splits)

lemma chat_step_mapped_gone:
  assumes free: "chat_chain_free jm um"
    and x: "like_lid x" "chat_target jm um x \<noteq> None"
  shows "x \<in> jid ` set (chats (chat_step jm um c d)) \<Longrightarrow> x \<in> jid ` set (chats d) \<and> x \<noteq> c"
    and "x \<in> chat_jid ` set (messages (chat_step jm um c d))
           \<Longrightarrow> x \<in> chat_jid ` set (messages d) \<and> x \<noteq> c"
proof -
  show "x \<in> jid ` set (chats (chat_step jm um c d)) \<Longrightarrow> x \<in> jid ` set (chats d) \<and> x \<noteq> c"
  proof (cases "chat_target jm um c")
    case None
    assume "x \<in> jid ` set (chats (chat_step jm um c d))"
    with None x(2) show ?thesis by auto
  next
    case (Some t)
    assume a: "x \<in> jid ` set (chats (chat_step jm um c d))"
    from free Some have "\<not> like_lid t" by (auto simp: chat_chain_free_def)
    with x(1) have "x \<noteq> t" by auto
    with a chat_step_jids(1) [OF Some, of d] show ?thesis by auto
  qed
  show "x \<in> chat_jid ` set (messages (chat_step jm um c d))
     \<Longrightarrow> x \<in> chat_jid ` set (messages d) \<and> x \<noteq> c"
  proof (cases "chat_target jm um c")
    case None
    assume "x \<in> chat_jid ` set (messages (chat_step jm um c d))"
    with None x(2) show ?thesis by auto
  next
    case (Some t)
    assume a: "x \<in> chat_jid ` set (messages (chat_step jm um c d))"
    from free Some have "\<not> like_lid t" by (auto simp: chat_chain_free_def)
    with x(1) have "x \<noteq> t" by auto
    with a chat_step_jids(2) [OF Some, of d] show ?thesis by auto
  qed
qed

lemma chat_fold_chats_gone:
  assumes free: "chat_chain_free jm um"
    and x: "like_lid x" "chat_target jm um x \<noteq> None"
  shows "x \<in> jid ` set (chats (chat_fold jm um cs d)) \<Longrightarrow> x \<in> jid ` set (chats d) \<and> x \<notin> set cs"
proof (induction cs arbitrary: d)
  case Nil
  then show ?case by simp
next
  case (Cons c cs)
  then have "x \<in> jid ` set (chats (chat_fold jm um cs (chat_step jm um c d)))" by simp
  from Cons.IH [OF this]
  have h: "x \<in> jid ` set (chats (chat_step jm um c d))" "x \<notin> set cs" by blast+
  from chat_step_mapped_gone(1) [OF free x h(1)] h(2) show ?case by simp
qed

lemma chat_fold_refs_gone:
  assumes free: "chat_chain_free jm um"
    and x: "like_lid x" "chat_target jm um x \<noteq> None"
  shows "x \<in> chat_jid ` set (messages (chat_fold jm um cs d))
           \<Longrightarrow> x \<in> chat_jid ` set (messages d) \<and> x \<notin> set cs"
proof (induction cs arbitrary: d)
  case Nil
  then show ?case by simp
next
  case (Cons c cs)
  then have "x \<in> chat_jid ` set (messages (chat_fold jm um cs (chat_step jm um c d)))" by simp
  from Cons.IH [OF this]
  have h: "x \<in> chat_jid ` set (messages (chat_step jm um c d))" "x \<notin> set cs" by blast+
  from chat_step_mapped_gone(2) [OF free x h(1)] h(2) show ?case by simp
qed

lemma chat_target_None_iff:
  "chat_target jm um c = None \<longleftrightarrow> um (bare_lid c) = None \<and> jm c = None"
  by (simp add: chat_target_def split: option.splits)

lemma run_rows:
  assumes run: "migrate_messages_db raises store lid_map = (Inr rep, store')"
    and maps: "build_maps lid_map = (jm, um)"
  shows "\<exists>F Q. messages store' = map F (filter Q (messages store))
     \<and> (\<forall>m. msg_id (F m) = msg_id m \<and> msg_cols (F m) = msg_cols m
          \<and> (sender_target jm um (sender m) = None \<longrightarrow> sender (F m) = sender m)
          \<and> (chat_target jm um (chat_jid m) = None \<longrightarrow> Q m \<and> chat_jid (F m) = chat_jid m))"
proof -
  from run have "run_passes raises lid_map store = Inr (rep, store')"
    by (simp add: migrate_messages_db_Inr)
  from run_passes_Inr [OF this maps] obtain outs d1 n d2 b where
    chat: "chat_pass raises jm um store = Inr (outs, d1)" and
    full: "full_sender_pass raises jm um d1 = Inr (n, d2)" and
    bare: "bare_sender_pass raises um d2 = Inr (b, store')"
    by blast
  let ?cs = "filter like_lid (map jid (chats store))"
  from chat_fold_rows [of jm um ?cs store] chat_pass_Inr(1) [OF chat] obtain F Q where
    c1: "messages d1 = map F (filter Q (messages store))" and
    c2: "\<And>m. msg_id (F m) = msg_id m \<and> sender (F m) = sender m \<and> msg_cols (F m) = msg_cols m
          \<and> (chat_jid m \<notin> set ?cs \<or> chat_target jm um (chat_jid m) = None \<longrightarrow> Q m \<and> F m = m)"
    by auto
  from sender_passes_frame [OF full bare] obtain G where
    s1: "messages store' = map G (messages d1)" and
    s2: "\<And>m. msg_id (G m) = msg_id m \<and> chat_jid (G m) = chat_jid m \<and> msg_cols (G m) = msg_cols m
            \<and> (sender_target jm um (sender m) = None \<longrightarrow> G m = m)"
    by blast
  have "messages store' = map (\<lambda>m. G (F m)) (filter Q (messages store))"
    by (simp add: s1 c1 comp_def)
  moreover have "\<forall>m. msg_id (G (F m)) = msg_id m \<and> msg_cols (G (F m)) = msg_cols m
          \<and> (sender_target jm um (sender m) = None \<longrightarrow> sender (G (F m)) = sender m)
          \<and> (chat_target jm um (chat_jid m) = None \<longrightarrow> Q m \<and> chat_jid (G (F m)) = chat_jid m)"
  proof (intro allI conjI impI)
    fix m
    show "msg_id (G (F m)) = msg_id m" "msg_cols (G (F m)) = msg_cols m"
      using c2 [of m] s2 [of "F m"] by simp_all
    show "sender (G (F m)) = sender m" if "sender_target jm um (sender m) = None"
      using that c2 [of m] s2 [of "F m"] by simp
    show "Q m" "chat_jid (G (F m)) = chat_jid m" if "chat_target jm um (chat_jid m) = None"
      using that c2 [of m] s2 [of "F m"] by simp_all
  qed
  ultimately show ?thesis by blast
qed

section \<open>The first worked example\<close>

lemma example_maps:
  "build_maps [(''111@lid'', ''222@s.whatsapp.net'')] = (example_jid_map, example_user_map)"
  by (simp add: build_maps_def user_part_def split_first_def example_jid_map_def
      example_user_map_def)

lemma example_like:
  "like_lid ''555@lid''" "like_lid ''111@lid''" "\<not> like_lid ''222@s.whatsapp.net''"
  "\<not> like_lid ''111''" "\<not> like_lid ''222''"
  by (simp_all add: like_lid_def ascii_lower_def suffix_to_prefix)

lemma example_bare:
  "bare_lid ''555@lid'' = ''555''" "bare_lid ''111@lid'' = ''111''"
  by (simp_all add: bare_lid_def suffix_to_prefix)

lemma example_user_part: "user_part ''555@lid'' = ''555''"
  by (simp add: user_part_def split_first_def)

lemma example_chat_pass:
  "chat_pass no_faults example_jid_map example_user_map example_store
     = Inr ([NO_MAPPING ''555@lid'', MERGED ''111@lid'' ''222@s.whatsapp.net'' 1 1], example_merged)"
proof -
  have sel: "select_lid_chats no_faults example_store = Inr [''555@lid'', ''111@lid'']"
    by (simp add: select_lid_chats_def example_store_def example_like)
  have c1: "migrate_chat no_faults example_jid_map example_user_map ''555@lid'' example_store
      = Inr (NO_MAPPING ''555@lid'', example_store)"
    by (simp add: migrate_chat_def Let_def example_bare example_jid_map_def example_user_map_def)
  have cnt: "count_chats no_faults ''222@s.whatsapp.net'' example_store = Inr 1"
    by (simp add: count_chats_def example_store_def)
  have dup: "delete_dup_messages no_faults ''111@lid'' ''111@lid'' ''222@s.whatsapp.net''
        example_store
      = Inr (1, example_store\<lparr>messages :=
          [\<lparr>msg_id = ''m1'', chat_jid = ''222@s.whatsapp.net'', sender = ''222@s.whatsapp.net'',
            msg_cols = ''hello''\<rparr>,
           \<lparr>msg_id = ''m2'', chat_jid = ''111@lid'', sender = ''111'', msg_cols = ''bye''\<rparr>,
           \<lparr>msg_id = ''m3'', chat_jid = ''555@lid'', sender = ''555@lid'', msg_cols = ''hi''\<rparr>]\<rparr>)"
    by (simp add: delete_dup_messages_def is_dup_def dup_ids_def example_store_def)
  have mv: "update_messages_chat no_faults ''222@s.whatsapp.net'' ''111@lid''
        (example_store\<lparr>messages :=
          [\<lparr>msg_id = ''m1'', chat_jid = ''222@s.whatsapp.net'', sender = ''222@s.whatsapp.net'',
            msg_cols = ''hello''\<rparr>,
           \<lparr>msg_id = ''m2'', chat_jid = ''111@lid'', sender = ''111'', msg_cols = ''bye''\<rparr>,
           \<lparr>msg_id = ''m3'', chat_jid = ''555@lid'', sender = ''555@lid'', msg_cols = ''hi''\<rparr>]\<rparr>)
      = Inr (1, example_store\<lparr>messages := messages example_merged\<rparr>)"
    by (simp add: update_messages_chat_def set_chat_jid_def example_store_def example_merged_def)
  have del: "delete_chat no_faults ''111@lid'' (example_store\<lparr>messages := messages example_merged\<rparr>)
      = Inr example_merged"
    by (simp add: delete_chat_def example_store_def example_merged_def)
  have c2: "migrate_chat no_faults example_jid_map example_user_map ''111@lid'' example_store
      = Inr (MERGED ''111@lid'' ''222@s.whatsapp.net'' 1 1, example_merged)"
    by (simp add: migrate_chat_def Let_def example_bare example_user_map_def rewrite_chat_def cnt
        merge_chat_def dup mv del)
  show ?thesis
    by (simp add: chat_pass_def sel c1 c2)
qed

lemma example_sender_passes:
  "full_sender_pass no_faults example_jid_map example_user_map example_merged
     = Inr (0, example_merged)"
  "bare_sender_pass no_faults example_user_map example_merged = Inr (1, example_result)"
proof -
  have sel: "select_lid_senders no_faults example_merged = Inr [''555@lid'']"
    by (simp add: select_lid_senders_def sql_distinct_def example_merged_def example_like)
  have "migrate_full_sender no_faults example_jid_map example_user_map ''555@lid'' example_merged
      = Inr (0, example_merged)"
    by (simp add: migrate_full_sender_def example_user_part example_jid_map_def
        example_user_map_def)
  with sel show "full_sender_pass no_faults example_jid_map example_user_map example_merged
     = Inr (0, example_merged)"
    by (simp add: full_sender_pass_def)
  have all: "select_senders no_faults example_merged
      = Inr [''222@s.whatsapp.net'', ''111'', ''555@lid'']"
    by (simp add: select_senders_def sql_distinct_def example_merged_def)
  have s1: "migrate_bare_sender no_faults example_user_map ''222@s.whatsapp.net'' example_merged
      = Inr (0, example_merged)"
    by (simp add: migrate_bare_sender_def)
  have s2: "migrate_bare_sender no_faults example_user_map ''111'' example_merged
      = Inr (1, example_result)"
    by (simp add: migrate_bare_sender_def example_user_map_def update_messages_sender_def
        set_sender_def example_merged_def example_result_def)
  have s3: "migrate_bare_sender no_faults example_user_map ''555@lid'' example_result
      = Inr (0, example_result)"
    by (simp add: migrate_bare_sender_def)
  show "bare_sender_pass no_faults example_user_map example_merged = Inr (1, example_result)"
    by (simp add: bare_sender_pass_def all s1 s2 s3)
qed

lemma example_run:
  "migrate_messages_db no_faults example_store [(''111@lid'', ''222@s.whatsapp.net'')]
     = (Inr \<lparr>outcomes = [NO_MAPPING ''555@lid'', MERGED ''111@lid'' ''222@s.whatsapp.net'' 1 1],
             senders_updated = 0, bare_updated = 1\<rparr>,
        example_result)"
  by (simp add: migrate_messages_db_def run_passes_def example_maps example_chat_pass
      example_sender_passes)

lemma sender_target_ran: "sender_target jm um s = Some t \<Longrightarrow> t \<in> ran jm \<union> ran um"
  by (auto simp: sender_target_def full_target_def bare_target_def ran_def
      split: if_splits option.splits)

lemma example_sender_chain_free: "sender_chain_free example_jid_map example_user_map"
  unfolding sender_chain_free_def
proof (intro allI impI)
  fix s t
  assume "sender_target example_jid_map example_user_map s = Some t"
  then have "t \<in> ran example_jid_map \<union> ran example_user_map"
    by (rule sender_target_ran)
  then have "t = ''222@s.whatsapp.net'' \<or> t = ''222''"
    by (auto simp: example_jid_map_def example_user_map_def)
  moreover have "sender_target example_jid_map example_user_map ''222@s.whatsapp.net'' = None"
    by (simp add: sender_target_def example_like bare_target_def)
  moreover have "sender_target example_jid_map example_user_map ''222'' = None"
    by (simp add: sender_target_def example_like bare_target_def example_user_map_def)
  ultimately show "sender_target example_jid_map example_user_map t = None"
    by blast
qed

lemma example_targets:
  "chat_target example_jid_map example_user_map ''555@lid'' = None"
  "chat_target example_jid_map example_user_map ''111@lid'' = Some ''222@s.whatsapp.net''"
  "sender_target example_jid_map example_user_map ''555@lid'' = None"
  "sender_target example_jid_map example_user_map ''111'' = Some ''222''"
  by (simp_all add: chat_target_def example_bare sender_target_def example_like full_target_def
      bare_target_def example_user_part example_jid_map_def example_user_map_def)

section \<open>Values without a mapping\<close>

text \<open>
  C9. After a run that reached its commit: a chat whose identifier ends with \<open>@lid\<close> and
  that neither map has an entry for is reported as \<open>NO_MAPPING\<close>, and the chat rows with that
  identifier are what they were. The message rows after the run are rows of before, in
  their order (the only rows that go are the duplicates a merge deletes), with \<open>id\<close> and
  the other columns as before; a sender value with no mapping is as before, and a row
  whose chat reference has no mapping is kept, with that reference as before.
\<close>

theorem unmapped_left_unchanged:
  assumes run: "migrate_messages_db raises store lid_map = (Inr rep, store')"
    and maps: "build_maps lid_map = (jid_map, user_map)"
  shows "(\<forall>c \<in> jid ` set (chats store).
            suffix ''@lid'' c \<longrightarrow> user_map (bare_lid c) = None \<longrightarrow> jid_map c = None \<longrightarrow>
              NO_MAPPING c \<in> set (outcomes rep)
              \<and> filter (\<lambda>x. jid x = c) (chats store') = filter (\<lambda>x. jid x = c) (chats store))
     \<and> (\<exists>F Q. messages store' = map F (filter Q (messages store))
          \<and> (\<forall>m. msg_id (F m) = msg_id m \<and> msg_cols (F m) = msg_cols m
               \<and> (sender_target jid_map user_map (sender m) = None \<longrightarrow> sender (F m) = sender m)
               \<and> (chat_target jid_map user_map (chat_jid m) = None
                    \<longrightarrow> Q m \<and> chat_jid (F m) = chat_jid m)))"
proof (intro conjI ballI impI)
  from run have "run_passes raises lid_map store = Inr (rep, store')"
    by (simp add: migrate_messages_db_Inr)
  from run_passes_Inr [OF this maps] obtain outs d1 n d2 b where
    chat: "chat_pass raises jid_map user_map store = Inr (outs, d1)" and
    full: "full_sender_pass raises jid_map user_map d1 = Inr (n, d2)" and
    bare: "bare_sender_pass raises user_map d2 = Inr (b, store')" and
    rep: "rep = \<lparr>outcomes = outs, senders_updated = n, bare_updated = b\<rparr>"
    by blast
  fix c
  assume c: "c \<in> jid ` set (chats store)" and suf: "suffix ''@lid'' c"
    and none: "user_map (bare_lid c) = None" "jid_map c = None"
  from none have tg: "chat_target jid_map user_map c = None"
    by (simp add: chat_target_None_iff)
  from chat_pass_Inr(2) [OF chat] c like_lid_suffix [OF suf] tg rep
  show "NO_MAPPING c \<in> set (outcomes rep)" by auto
  have "chats store' = chats d1"
    using sender_passes_frame [OF full bare] by simp
  also have "d1 = chat_fold jid_map user_map (filter like_lid (map jid (chats store))) store"
    by (rule chat_pass_Inr(1) [OF chat])
  finally show "filter (\<lambda>x. jid x = c) (chats store') = filter (\<lambda>x. jid x = c) (chats store)"
    using chat_fold_chat_frame [OF c, of _ jid_map user_map] tg by simp
next
  show "\<exists>F Q. messages store' = map F (filter Q (messages store))
          \<and> (\<forall>m. msg_id (F m) = msg_id m \<and> msg_cols (F m) = msg_cols m
               \<and> (sender_target jid_map user_map (sender m) = None \<longrightarrow> sender (F m) = sender m)
               \<and> (chat_target jid_map user_map (chat_jid m) = None
                    \<longrightarrow> Q m \<and> chat_jid (F m) = chat_jid m))"
    by (rule run_rows [OF run maps])
qed

text \<open>
  In the worked run the chat \<open>555@lid\<close> has no entry in either map: it is reported, its row
  stays, and the sender \<open>555@lid\<close> of its message \<open>m3\<close> stays.
\<close>

theorem unmapped_left_unchanged_witness:
  "migrate_messages_db no_faults example_store [(''111@lid'', ''222@s.whatsapp.net'')]
     = (Inr \<lparr>outcomes = [NO_MAPPING ''555@lid'', MERGED ''111@lid'' ''222@s.whatsapp.net'' 1 1],
             senders_updated = 0, bare_updated = 1\<rparr>,
        example_result)
   \<and> build_maps [(''111@lid'', ''222@s.whatsapp.net'')] = (example_jid_map, example_user_map)
   \<and> ''555@lid'' \<in> jid ` set (chats example_store)
   \<and> suffix ''@lid'' ''555@lid''
   \<and> example_user_map (bare_lid ''555@lid'') = None
   \<and> example_jid_map ''555@lid'' = None
   \<and> NO_MAPPING ''555@lid''
        \<in> set (outcomes \<lparr>outcomes = [NO_MAPPING ''555@lid'',
                                     MERGED ''111@lid'' ''222@s.whatsapp.net'' 1 1],
                         senders_updated = 0, bare_updated = 1\<rparr>)
   \<and> filter (\<lambda>x. jid x = ''555@lid'') (chats example_result)
        = filter (\<lambda>x. jid x = ''555@lid'') (chats example_store)
   \<and> sender_target example_jid_map example_user_map ''555@lid'' = None
   \<and> \<lparr>msg_id = ''m3'', chat_jid = ''555@lid'', sender = ''555@lid'', msg_cols = ''hi''\<rparr>
        \<in> set (messages example_store) \<inter> set (messages example_result)"
proof -
  have mem: "''555@lid'' \<in> jid ` set (chats example_store)"
    by (simp add: example_store_def)
  have suf: "suffix ''@lid'' ''555@lid''"
    by (simp add: suffix_to_prefix)
  have n1: "example_user_map (bare_lid ''555@lid'') = None"
    by (simp add: example_bare example_user_map_def)
  have n2: "example_jid_map ''555@lid'' = None"
    by (simp add: example_jid_map_def)
  have row: "\<lparr>msg_id = ''m3'', chat_jid = ''555@lid'', sender = ''555@lid'', msg_cols = ''hi''\<rparr>
        \<in> set (messages example_store) \<inter> set (messages example_result)"
    by (simp add: example_store_def example_result_def)
  note unmapped_left_unchanged [OF example_run example_maps, THEN conjunct1, rule_format,
      OF mem suf n1 n2]
  with example_run example_maps mem suf n1 n2 example_targets(3) row show ?thesis
    by simp
qed

section \<open>The second worked example\<close>

lemma chain_maps: "build_maps chain_map = (chain_lookup, chain_lookup)"
  by (simp add: build_maps_def chain_map_def chain_lookup_def user_part_def)

lemma chain_like: "like_lid ''1@lid''" "\<not> like_lid ''1''" "\<not> like_lid ''2''"
  by (simp_all add: like_lid_def ascii_lower_def suffix_to_prefix)

lemma chain_chat_pass:
  "chat_pass no_faults chain_lookup chain_lookup (chain_store s) = Inr ([], chain_store s)"
  by (simp add: chat_pass_def select_lid_chats_def chain_store_def)

lemma chain_full_pass:
  "full_sender_pass no_faults chain_lookup chain_lookup (chain_store ''1@lid'')
     = Inr (1, chain_store ''2'')"
  "full_sender_pass no_faults chain_lookup chain_lookup (chain_store ''1'')
     = Inr (0, chain_store ''1'')"
  "full_sender_pass no_faults chain_lookup chain_lookup (chain_store ''2'')
     = Inr (0, chain_store ''2'')"
proof -
  have up: "user_part ''1@lid'' = ''1''"
    by (simp add: user_part_def split_first_def)
  show "full_sender_pass no_faults chain_lookup chain_lookup (chain_store ''1@lid'')
     = Inr (1, chain_store ''2'')"
    by (simp add: full_sender_pass_def select_lid_senders_def sql_distinct_def chain_like
        migrate_full_sender_def up update_messages_sender_def set_sender_def chain_store_def
        chain_lookup_def)
  show "full_sender_pass no_faults chain_lookup chain_lookup (chain_store ''1'')
     = Inr (0, chain_store ''1'')"
    by (simp add: full_sender_pass_def select_lid_senders_def sql_distinct_def chain_like
        chain_store_def)
  show "full_sender_pass no_faults chain_lookup chain_lookup (chain_store ''2'')
     = Inr (0, chain_store ''2'')"
    by (simp add: full_sender_pass_def select_lid_senders_def sql_distinct_def chain_like
        chain_store_def)
qed

lemma chain_select: "select_senders no_faults (chain_store s) = Inr [s]"
  by (simp add: select_senders_def sql_distinct_def chain_store_def)

lemma chain_bare_pass:
  "bare_sender_pass no_faults chain_lookup (chain_store ''1'') = Inr (1, chain_store ''2'')"
  "bare_sender_pass no_faults chain_lookup (chain_store ''2'') = Inr (1, chain_store ''3'')"
  by (simp_all add: bare_sender_pass_def select_senders_def sql_distinct_def
      migrate_bare_sender_def update_messages_sender_def set_sender_def chain_store_def
      chain_lookup_def)

lemma chain_run:
  "migrate_messages_db no_faults (chain_store ''1@lid'') chain_map
     = (Inr \<lparr>outcomes = [], senders_updated = 1, bare_updated = 1\<rparr>, chain_store ''3'')"
  "migrate_messages_db no_faults (chain_store ''1'') chain_map
     = (Inr \<lparr>outcomes = [], senders_updated = 0, bare_updated = 1\<rparr>, chain_store ''2'')"
  "migrate_messages_db no_faults (chain_store ''2'') chain_map
     = (Inr \<lparr>outcomes = [], senders_updated = 0, bare_updated = 1\<rparr>, chain_store ''3'')"
  by (simp_all add: migrate_messages_db_def run_passes_def chain_maps chain_chat_pass
      chain_full_pass chain_bare_pass)

section \<open>Chained sender rewrites\<close>

text \<open>
  C10. The bare pass lists the distinct senders of the table as the full pass left it. With
  the entries \<open>1 \<rightarrow> 2\<close> and \<open>2 \<rightarrow> 3\<close> (the stable user of the first is the anonymized user of
  the second) the sender \<open>1@lid\<close> is rewritten by the full pass to \<open>2\<close>, through the first
  entry, and then by the bare pass to \<open>3\<close>, through the second.
\<close>

theorem chained_sender_rewrite:
  "\<exists>lid_map jid_map user_map d d1 d2 rep.
     build_maps lid_map = (jid_map, user_map)
     \<and> user_part (snd (lid_map ! 0)) = user_part (fst (lid_map ! 1))
     \<and> map sender (messages d) = [''1@lid'']
     \<and> full_sender_pass no_faults jid_map user_map d = Inr (1, d1)
     \<and> map sender (messages d1) = [''2'']
     \<and> select_senders no_faults d1 = Inr [''2'']
     \<and> bare_sender_pass no_faults user_map d1 = Inr (1, d2)
     \<and> map sender (messages d2) = [''3'']
     \<and> migrate_messages_db no_faults d lid_map = (Inr rep, d2)"
proof -
  have "user_part (snd (chain_map ! 0)) = user_part (fst (chain_map ! 1))"
    by (simp add: chain_map_def)
  moreover have "map sender (messages (chain_store s)) = [s]" for s
    by (simp add: chain_store_def)
  ultimately show ?thesis
    using chain_maps chain_full_pass(1) chain_select [of "''2''"] chain_bare_pass(2) chain_run(1)
    by (intro exI [of _ chain_map] exI [of _ chain_lookup] exI [of _ "chain_store ''1@lid''"]
        exI [of _ "chain_store ''2''"] exI [of _ "chain_store ''3''"]
        exI [of _ "\<lparr>outcomes = [], senders_updated = 1, bare_updated = 1\<rparr>"]) simp
qed

text \<open>
  C5 as the claim states it fails on a chain: the sender \<open>1@lid\<close> has the mapping to \<open>2\<close>
  (no full-identifier entry, bare-user entry \<open>1 \<rightarrow> 2\<close>), and the row that had it has \<open>3\<close>
  after the run.
\<close>

theorem sender_rewrite_chain_counterexample:
  "build_maps chain_map = (chain_lookup, chain_lookup)
   \<and> chain_lookup ''1@lid'' = None \<and> chain_lookup (user_part ''1@lid'') = Some ''2''
   \<and> map sender (messages (chain_store ''1@lid'')) = [''1@lid'']
   \<and> migrate_messages_db no_faults (chain_store ''1@lid'') chain_map
       = (Inr \<lparr>outcomes = [], senders_updated = 1, bare_updated = 1\<rparr>, chain_store ''3'')
   \<and> map sender (messages (chain_store ''3'')) = [''3'']
   \<and> ''3'' \<noteq> ''2''"
proof -
  have "chain_lookup ''1@lid'' = None" "chain_lookup (user_part ''1@lid'') = Some ''2''"
    by (simp_all add: chain_lookup_def user_part_def split_first_def)
  moreover have "map sender (messages (chain_store s)) = [s]" for s
    by (simp add: chain_store_def)
  ultimately show ?thesis
    using chain_maps chain_run(1) by simp
qed

text \<open>
  C1 as the claim states it fails on a chain: the first run rewrites the sender \<open>1\<close> to \<open>2\<close>,
  for which the mapping has an entry, and the second run rewrites it to \<open>3\<close>.
\<close>

theorem second_run_counterexample:
  "migrate_messages_db no_faults (chain_store ''1'') chain_map
     = (Inr \<lparr>outcomes = [], senders_updated = 0, bare_updated = 1\<rparr>, chain_store ''2'')
   \<and> migrate_messages_db no_faults (chain_store ''2'') chain_map
     = (Inr \<lparr>outcomes = [], senders_updated = 0, bare_updated = 1\<rparr>, chain_store ''3'')
   \<and> chain_store ''3'' \<noteq> chain_store ''2''"
  using chain_run(2,3) by (simp add: chain_store_def)

section \<open>A second run\<close>

lemma chat_loop_noop:
  "\<forall>c \<in> set cs. chat_target jm um c = None \<Longrightarrow>
     chat_loop raises jm um cs d = Inr (map NO_MAPPING cs, d)"
  by (induction cs) (simp_all add: migrate_chat_target)

lemma migrate_full_sender_noop:
  "full_target jm um s = None \<Longrightarrow> migrate_full_sender raises jm um s d = Inr (0, d)"
  by (auto simp: full_target_def migrate_full_sender_def dom_def split: option.splits)

lemma full_sender_loop_noop:
  "\<forall>s \<in> set ss. full_target jm um s = None \<Longrightarrow>
     full_sender_loop raises jm um ss d = Inr (0, d)"
  by (induction ss) (simp_all add: migrate_full_sender_noop)

lemma migrate_bare_sender_noop:
  "bare_target um s = None \<Longrightarrow> migrate_bare_sender raises um s d = Inr (0, d)"
  by (auto simp: bare_target_def migrate_bare_sender_def dom_def split: if_splits)

lemma bare_sender_loop_noop:
  "\<forall>s \<in> set ss. bare_target um s = None \<Longrightarrow>
     bare_sender_loop raises um ss d = Inr (0, d)"
  by (induction ss) (simp_all add: migrate_bare_sender_noop)

lemma chats_updated_no_mapping [simp]: "chats_updated (map NO_MAPPING cs) = 0"
  by (simp add: chats_updated_def)

lemma run_passes_noop:
  assumes chats: "\<forall>c \<in> jid ` set (chats d). like_lid c \<longrightarrow> chat_target jm um c = None"
    and senders: "\<forall>m \<in> set (messages d). sender_target jm um (sender m) = None"
    and maps: "build_maps lid_map = (jm, um)"
    and run: "run_passes raises lid_map d = Inr (rep, d')"
  shows "d' = d \<and> chats_updated (outcomes rep) = 0 \<and> senders_updated rep = 0
     \<and> bare_updated rep = 0"
proof -
  from run_passes_Inr [OF run maps] obtain outs d1 n d2 b where
    chat: "chat_pass raises jm um d = Inr (outs, d1)" and
    full: "full_sender_pass raises jm um d1 = Inr (n, d2)" and
    bare: "bare_sender_pass raises um d2 = Inr (b, d')" and
    rep: "rep = \<lparr>outcomes = outs, senders_updated = n, bare_updated = b\<rparr>"
    by blast
  from chat obtain cs where cs: "select_lid_chats raises d = Inr cs"
    and loop: "chat_loop raises jm um cs d = Inr (outs, d1)"
    by (auto simp: chat_pass_def bind_err_Inr)
  from select_lid_chats_Inr [OF cs] chats have "\<forall>c \<in> set cs. chat_target jm um c = None"
    by auto
  from chat_loop_noop [OF this, of raises d] loop
  have c: "d1 = d" "outs = map NO_MAPPING cs" by simp_all
  from full obtain ss where ss: "select_lid_senders raises d1 = Inr ss"
    and floop: "full_sender_loop raises jm um ss d1 = Inr (n, d2)"
    by (auto simp: full_sender_pass_def bind_err_Inr)
  have "\<forall>s \<in> set ss. full_target jm um s = None"
  proof
    fix s assume "s \<in> set ss"
    with select_lid_senders_Inr [OF ss] c(1)
    have "s \<in> sender ` set (messages d)" "like_lid s" by auto
    with senders show "full_target jm um s = None"
      by (auto simp: sender_target_def)
  qed
  from full_sender_loop_noop [OF this, of raises d1] floop
  have f: "d2 = d1" "n = 0" by simp_all
  from bare obtain bs where bs: "select_senders raises d2 = Inr bs"
    and bloop: "bare_sender_loop raises um bs d2 = Inr (b, d')"
    by (auto simp: bare_sender_pass_def bind_err_Inr)
  have "\<forall>s \<in> set bs. bare_target um s = None"
  proof
    fix s assume "s \<in> set bs"
    with select_senders_Inr [OF bs] c(1) f(1)
    have "s \<in> sender ` set (messages d)" by auto
    with senders have "sender_target jm um s = None" by auto
    then show "bare_target um s = None" by (rule sender_target_None_bare)
  qed
  from bare_sender_loop_noop [OF this, of raises d2] bloop
  have b: "d' = d2" "b = 0" by simp_all
  from c f b rep show ?thesis by simp
qed

lemma first_run_leaves_no_mapped:
  assumes run: "migrate_messages_db raises store lid_map = (Inr rep, store')"
    and maps: "build_maps lid_map = (jm, um)"
    and chats_free: "chat_chain_free jm um"
    and senders_free: "sender_chain_free jm um"
  shows "\<forall>c \<in> jid ` set (chats store'). like_lid c \<longrightarrow> chat_target jm um c = None"
    and "\<forall>m \<in> set (messages store'). sender_target jm um (sender m) = None"
    and "\<forall>m \<in> set (messages store'). like_lid (chat_jid m)
           \<longrightarrow> chat_jid m \<in> jid ` set (chats store) \<longrightarrow> chat_target jm um (chat_jid m) = None"
proof -
  from run have "run_passes raises lid_map store = Inr (rep, store')"
    by (simp add: migrate_messages_db_Inr)
  from run_passes_Inr [OF this maps] obtain outs d1 n d2 b where
    chat: "chat_pass raises jm um store = Inr (outs, d1)" and
    full: "full_sender_pass raises jm um d1 = Inr (n, d2)" and
    bare: "bare_sender_pass raises um d2 = Inr (b, store')"
    by blast
  let ?cs = "filter like_lid (map jid (chats store))"
  note d1 = chat_pass_Inr(1) [OF chat]
  note sp = sender_passes_exact [OF senders_free full bare]
  show "\<forall>c \<in> jid ` set (chats store'). like_lid c \<longrightarrow> chat_target jm um c = None"
  proof (intro ballI impI)
    fix c assume c: "c \<in> jid ` set (chats store')" "like_lid c"
    show "chat_target jm um c = None"
    proof (rule ccontr)
      assume m: "chat_target jm um c \<noteq> None"
      from c(1) sp d1 have "c \<in> jid ` set (chats (chat_fold jm um ?cs store))" by simp
      from chat_fold_chats_gone [OF chats_free c(2) m this] c(2) show False by auto
    qed
  qed
  show "\<forall>m \<in> set (messages store'). sender_target jm um (sender m) = None"
  proof
    fix m assume "m \<in> set (messages store')"
    with sp obtain m0 :: message where "sender m = sender_after jm um (sender m0)" by auto
    then show "sender_target jm um (sender m) = None"
      using senders_free
      by (cases "sender_target jm um (sender m0)")
        (auto simp: sender_after_def sender_chain_free_def)
  qed
  show "\<forall>m \<in> set (messages store'). like_lid (chat_jid m)
           \<longrightarrow> chat_jid m \<in> jid ` set (chats store) \<longrightarrow> chat_target jm um (chat_jid m) = None"
  proof (intro ballI impI)
    fix m assume m: "m \<in> set (messages store')" "like_lid (chat_jid m)"
      "chat_jid m \<in> jid ` set (chats store)"
    show "chat_target jm um (chat_jid m) = None"
    proof (rule ccontr)
      assume t: "chat_target jm um (chat_jid m) \<noteq> None"
      from m(1) sp have "chat_jid m \<in> chat_jid ` set (messages d1)" by auto
      with d1 have "chat_jid m \<in> chat_jid ` set (messages (chat_fold jm um ?cs store))" by simp
      from chat_fold_refs_gone [OF chats_free m(2) t this] m(2,3) show False by auto
    qed
  qed
qed

text \<open>
  C1, as amended. Provided no identifier that a chat is rewritten to is matched by \<open>%@lid\<close>
  and no value that a sender is rewritten to is a sender value with a mapping: after a run
  that reached its commit, no chat row has an identifier matched by \<open>%@lid\<close> with a mapping,
  no message row has a sender with a mapping, and no message row refers to a chat of the
  store by an identifier matched by \<open>%@lid\<close> with a mapping. A second run with the same
  mapping, whatever fails in it, leaves the store as the first run left it; when it reaches
  its commit it has reported no merge and no rename and has counted no sender.
\<close>

theorem second_run_changes_nothing:
  assumes run: "migrate_messages_db raises store lid_map = (Inr rep, store')"
    and maps: "build_maps lid_map = (jid_map, user_map)"
    and chats_free: "chat_chain_free jid_map user_map"
    and senders_free: "sender_chain_free jid_map user_map"
  shows "(\<forall>c \<in> jid ` set (chats store'). like_lid c \<longrightarrow> chat_target jid_map user_map c = None)
     \<and> (\<forall>m \<in> set (messages store'). sender_target jid_map user_map (sender m) = None)
     \<and> (\<forall>m \<in> set (messages store'). like_lid (chat_jid m)
           \<longrightarrow> chat_jid m \<in> jid ` set (chats store)
           \<longrightarrow> chat_target jid_map user_map (chat_jid m) = None)
     \<and> snd (migrate_messages_db raises' store' lid_map) = store'
     \<and> (\<forall>rep'. fst (migrate_messages_db raises' store' lid_map) = Inr rep'
           \<longrightarrow> chats_updated (outcomes rep') = 0 \<and> senders_updated rep' = 0
               \<and> bare_updated rep' = 0)"
proof -
  note left = first_run_leaves_no_mapped [OF run maps chats_free senders_free]
  have second: "snd (migrate_messages_db raises' store' lid_map) = store'
     \<and> (\<forall>rep'. fst (migrate_messages_db raises' store' lid_map) = Inr rep'
           \<longrightarrow> chats_updated (outcomes rep') = 0 \<and> senders_updated rep' = 0
               \<and> bare_updated rep' = 0)"
  proof (cases "run_passes raises' lid_map store'")
    case (Inl e)
    then show ?thesis by (simp add: migrate_messages_db_def)
  next
    case (Inr r)
    obtain rep' d' where r: "r = (rep', d')" by (cases r)
    from run_passes_noop [OF left(1,2) maps Inr [unfolded r]] Inr r show ?thesis
      by (simp add: migrate_messages_db_def)
  qed
  from left second show ?thesis by blast
qed

lemma not_like_lid_whatsapp: "\<not> like_lid (u @ ''@s.whatsapp.net'')"
proof
  assume "like_lid (u @ ''@s.whatsapp.net'')"
  moreover have "map ascii_lower ''@s.whatsapp.net'' = ''@s.whatsapp.net''"
    by (simp add: ascii_lower_def)
  ultimately have "suffix ''@lid'' (map ascii_lower u @ ''@s.whatsapp.net'')"
    by (simp add: like_lid_def)
  then have "suffix ''@lid'' ''@s.whatsapp.net''
      \<or> (\<exists>xs. ''@lid'' = xs @ ''@s.whatsapp.net'' \<and> suffix xs (map ascii_lower u))"
    by (simp add: suffix_append)
  moreover have "\<not> suffix ''@lid'' ''@s.whatsapp.net''"
    by (simp add: suffix_to_prefix)
  moreover have "''@lid'' \<noteq> xs @ ''@s.whatsapp.net''" for xs
  proof
    assume "''@lid'' = xs @ ''@s.whatsapp.net''"
    then have "length ''@lid'' = length (xs @ ''@s.whatsapp.net'')" by (rule arg_cong)
    then show False by simp
  qed
  ultimately show False by blast
qed

lemma chat_target_form:
  "chat_target jm um c = Some t \<Longrightarrow> (\<exists>u. t = u @ ''@s.whatsapp.net'') \<or> t \<in> ran jm"
  by (auto simp: chat_target_def ran_def split: option.splits)

lemma example_chat_chain_free: "chat_chain_free example_jid_map example_user_map"
  unfolding chat_chain_free_def
proof (intro allI impI)
  fix c t
  assume "chat_target example_jid_map example_user_map c = Some t"
  then have "(\<exists>u. t = u @ ''@s.whatsapp.net'') \<or> t \<in> ran example_jid_map"
    by (rule chat_target_form)
  then have "\<exists>u. t = u @ ''@s.whatsapp.net''"
    by (auto simp: example_jid_map_def)
  then show "\<not> like_lid t"
    by (auto simp: not_like_lid_whatsapp)
qed

text \<open>
  The maps of the worked run have no chain. After it the store holds no mapped value, and a
  second run returns the store it was given.
\<close>

theorem second_run_changes_nothing_witness:
  "migrate_messages_db no_faults example_store [(''111@lid'', ''222@s.whatsapp.net'')]
     = (Inr \<lparr>outcomes = [NO_MAPPING ''555@lid'', MERGED ''111@lid'' ''222@s.whatsapp.net'' 1 1],
             senders_updated = 0, bare_updated = 1\<rparr>,
        example_result)
   \<and> build_maps [(''111@lid'', ''222@s.whatsapp.net'')] = (example_jid_map, example_user_map)
   \<and> chat_chain_free example_jid_map example_user_map
   \<and> sender_chain_free example_jid_map example_user_map
   \<and> example_result \<noteq> example_store
   \<and> snd (migrate_messages_db no_faults example_result [(''111@lid'', ''222@s.whatsapp.net'')])
       = example_result"
proof -
  have "example_result \<noteq> example_store"
    by (simp add: example_result_def example_store_def)
  moreover note second_run_changes_nothing [OF example_run example_maps example_chat_chain_free
      example_sender_chain_free, of no_faults, THEN conjunct2, THEN conjunct2, THEN conjunct2,
      THEN conjunct1]
  ultimately show ?thesis
    using example_run example_maps example_chat_chain_free example_sender_chain_free by simp
qed

section \<open>A merge\<close>

lemma set_dup_ids:
  "i \<in> set (dup_ids a b ms) \<longleftrightarrow>
     (\<exists>m1 \<in> set ms. \<exists>m2 \<in> set ms.
        msg_id m1 = i \<and> msg_id m2 = i \<and> chat_jid m1 = a \<and> chat_jid m2 = b)"
proof
  assume "i \<in> set (dup_ids a b ms)"
  then obtain x y where "x \<in> set ms" "y \<in> set ms" "msg_id x = msg_id y" "chat_jid x = a"
    "chat_jid y = b" "i = msg_id x"
    by (auto simp: dup_ids_def)
  then have "x \<in> set ms \<and> y \<in> set ms \<and> msg_id x = i \<and> msg_id y = i \<and> chat_jid x = a
      \<and> chat_jid y = b" by simp
  then show "\<exists>m1 \<in> set ms. \<exists>m2 \<in> set ms.
        msg_id m1 = i \<and> msg_id m2 = i \<and> chat_jid m1 = a \<and> chat_jid m2 = b"
    by blast
next
  assume "\<exists>m1 \<in> set ms. \<exists>m2 \<in> set ms.
        msg_id m1 = i \<and> msg_id m2 = i \<and> chat_jid m1 = a \<and> chat_jid m2 = b"
  then obtain x y where xy: "x \<in> set ms" "y \<in> set ms" "msg_id x = i" "msg_id y = i"
    "chat_jid x = a" "chat_jid y = b"
    by blast
  then have "y \<in> set ms \<inter> {m2. msg_id x = msg_id m2 \<and> chat_jid x = a \<and> chat_jid m2 = b}"
    by simp
  with xy(1,3) show "i \<in> set (dup_ids a b ms)"
    unfolding dup_ids_def by (simp) (intro bexI [of _ x] bexI [of _ y]; simp)
qed

lemma is_dup_iff:
  "is_dup c a b ms m \<longleftrightarrow>
     chat_jid m = c \<and> (\<exists>m1 \<in> set ms. \<exists>m2 \<in> set ms.
        msg_id m1 = msg_id m \<and> msg_id m2 = msg_id m \<and> chat_jid m1 = a \<and> chat_jid m2 = b)"
  unfolding is_dup_def set_dup_ids ..

lemma chat_step_messages:
  "chat_target jm um c = Some t \<Longrightarrow>
     messages (chat_step jm um c d) =
       map (set_chat_jid t c)
         (filter (\<lambda>m. \<not> (t \<in> jid ` set (chats d) \<and> is_dup c c t (messages d) m)) (messages d))"
  by (simp add: chat_step_def chat_effect_def)

lemma ex_filter: "(\<exists>m \<in> set xs. P m) \<longleftrightarrow> filter P xs \<noteq> []"
  by (simp add: filter_empty_conv)

lemma chat_step_target_rows:
  assumes T: "T \<in> jid ` set (chats d)"
    and ne: "c \<noteq> T"
    and i: "\<exists>m \<in> set (messages d). chat_jid m = T \<and> msg_id m = i"
  shows "filter (\<lambda>m. chat_jid m = T \<and> msg_id m = i) (messages (chat_step jm um c d))
     = filter (\<lambda>m. chat_jid m = T \<and> msg_id m = i) (messages d)"
proof (cases "chat_target jm um c")
  case None
  then show ?thesis by simp
next
  case (Some t)
  let ?P = "\<lambda>m. chat_jid m = T \<and> msg_id m = i"
  let ?f = "set_chat_jid t c"
  define K where "K m \<longleftrightarrow> \<not> (t \<in> jid ` set (chats d) \<and> is_dup c c t (messages d) m)" for m
  have ms: "messages (chat_step jm um c d) = map ?f (filter K (messages d))"
    unfolding K_def by (rule chat_step_messages [OF Some])
  have K: "K m \<longleftrightarrow> \<not> (t \<in> jid ` set (chats d) \<and> is_dup c c t (messages d) m)"
    if "m \<in> set (messages d)" for m
    by (simp add: K_def)
  have keep: "(K m \<and> ?P (?f m)) \<longleftrightarrow> ?P m" if m: "m \<in> set (messages d)" for m
  proof (cases "chat_jid m = c")
    case False
    with K [OF m] show ?thesis by (simp add: is_dup_iff set_chat_jid_def)
  next
    case True
    with ne have notP: "\<not> ?P m" by simp
    have "\<not> (K m \<and> ?P (?f m))"
    proof
      assume a: "K m \<and> ?P (?f m)"
      with True have tT: "t = T" and mi: "msg_id m = i" by simp_all
      from i obtain m2 where "m2 \<in> set (messages d)" "chat_jid m2 = T" "msg_id m2 = i" by blast
      with m True mi tT have "is_dup c c t (messages d) m"
        unfolding is_dup_iff by blast
      with K [OF m] T tT a show False by simp
    qed
    with notP show ?thesis by blast
  qed
  have "filter ?P (messages (chat_step jm um c d))
      = map ?f (filter (\<lambda>m. K m \<and> ?P (?f m)) (messages d))"
    by (simp add: ms filter_map comp_def)
  also have "filter (\<lambda>m. K m \<and> ?P (?f m)) (messages d) = filter ?P (messages d)"
    by (rule filter_cong [OF refl]) (rule keep)
  also have "map ?f (filter ?P (messages d)) = filter ?P (messages d)"
    using ne by (intro map_idI) (auto simp: set_chat_jid_def)
  finally show ?thesis .
qed

lemma chat_fold_target_rows:
  assumes "T \<in> jid ` set (chats d)"
    and "T \<notin> set cs"
    and "\<exists>m \<in> set (messages d). chat_jid m = T \<and> msg_id m = i"
  shows "filter (\<lambda>m. chat_jid m = T \<and> msg_id m = i) (messages (chat_fold jm um cs d))
     = filter (\<lambda>m. chat_jid m = T \<and> msg_id m = i) (messages d)"
  using assms
proof (induction cs arbitrary: d)
  case Nil
  show ?case by simp
next
  case (Cons c cs)
  from Cons.prems(2) have ne: "c \<noteq> T" and rest: "T \<notin> set cs" by auto
  note rows = chat_step_target_rows [OF Cons.prems(1) ne Cons.prems(3), of jm um]
  from Cons.prems(1) ne have T': "T \<in> jid ` set (chats (chat_step jm um c d))"
    using chat_step_chat_frame [of T d c jm um] unfolding jid_mem_filter by simp
  from Cons.prems(3)
  have "\<exists>m \<in> set (messages (chat_step jm um c d)). chat_jid m = T \<and> msg_id m = i"
    unfolding ex_filter rows .
  from Cons.IH [OF T' rest this] rows show ?case by simp
qed

lemma chat_step_present:
  assumes T: "T \<in> jid ` set (chats d)"
    and ne: "c \<noteq> T"
    and tg: "c = C \<longrightarrow> chat_target jm um c = Some T"
    and present: "\<exists>m \<in> set (messages d). msg_id m = i \<and> (chat_jid m = T \<or> chat_jid m = C)"
  shows "\<exists>m \<in> set (messages (chat_step jm um c d)). msg_id m = i \<and> (chat_jid m = T \<or> chat_jid m = C)"
proof (cases "\<exists>m \<in> set (messages d). chat_jid m = T \<and> msg_id m = i")
  case True
  then have "\<exists>m \<in> set (messages (chat_step jm um c d)). chat_jid m = T \<and> msg_id m = i"
    unfolding ex_filter chat_step_target_rows [OF T ne True, of jm um] .
  then show ?thesis by blast
next
  case False
  with present obtain m where m: "m \<in> set (messages d)" "msg_id m = i" "chat_jid m = C"
    by blast
  show ?thesis
  proof (cases "chat_target jm um c")
    case None
    with m show ?thesis by auto
  next
    case (Some t)
    define K where "K m \<longleftrightarrow> \<not> (t \<in> jid ` set (chats d) \<and> is_dup c c t (messages d) m)" for m
    have ms: "messages (chat_step jm um c d) = map (set_chat_jid t c) (filter K (messages d))"
      unfolding K_def by (rule chat_step_messages [OF Some])
    have K: "K m \<longleftrightarrow> \<not> (t \<in> jid ` set (chats d) \<and> is_dup c c t (messages d) m)"
      if "m \<in> set (messages d)" for m
      by (simp add: K_def)
    have "K m"
    proof (cases "c = C")
      case False
      with K [OF m(1)] m(3) show ?thesis by (simp add: is_dup_iff)
    next
      case True
      with tg Some have "t = T" by simp
      with False m(2) have "\<not> is_dup c c t (messages d) m"
        unfolding is_dup_iff by auto
      with K [OF m(1)] show ?thesis by simp
    qed
    with m(1) have in': "set_chat_jid t c m \<in> set (messages (chat_step jm um c d))"
      by (simp add: ms)
    have "chat_jid (set_chat_jid t c m) = T \<or> chat_jid (set_chat_jid t c m) = C"
      using m(3) tg Some by (auto simp: set_chat_jid_def)
    with in' m(2) show ?thesis
      by (intro bexI [of _ "set_chat_jid t c m"]) simp_all
  qed
qed

lemma chat_fold_present:
  assumes "T \<in> jid ` set (chats d)"
    and "T \<notin> set cs"
    and "chat_target jm um C = Some T"
    and "\<exists>m \<in> set (messages d). msg_id m = i \<and> (chat_jid m = T \<or> chat_jid m = C)"
  shows "\<exists>m \<in> set (messages (chat_fold jm um cs d)). msg_id m = i \<and> (chat_jid m = T \<or> chat_jid m = C)"
  using assms
proof (induction cs arbitrary: d)
  case Nil
  then show ?case by simp
next
  case (Cons c cs)
  from Cons.prems(2) have ne: "c \<noteq> T" and rest: "T \<notin> set cs" by auto
  from Cons.prems(3) have tg: "c = C \<longrightarrow> chat_target jm um c = Some T" by simp
  note p = chat_step_present [OF Cons.prems(1) ne tg Cons.prems(4)]
  from Cons.prems(1) ne have T': "T \<in> jid ` set (chats (chat_step jm um c d))"
    using chat_step_chat_frame [of T d c jm um] unfolding jid_mem_filter by simp
  from Cons.IH [OF T' rest Cons.prems(3) p] show ?case by simp
qed

lemma one_row_of_key:
  "distinct (map jid xs) \<Longrightarrow> T \<in> jid ` set xs \<Longrightarrow> length (filter (\<lambda>x. jid x = T) xs) = 1"
proof (induction xs)
  case Nil
  then show ?case by simp
next
  case (Cons x xs)
  show ?case
  proof (cases "jid x = T")
    case True
    with Cons.prems(1) have "T \<notin> jid ` set xs" by simp
    then have "filter (\<lambda>x. jid x = T) xs = []"
      unfolding filter_empty_conv by blast
    with True show ?thesis by simp
  next
    case False
    with Cons show ?thesis by auto
  qed
qed

text \<open>
  C4, as amended. Provided the chat identifiers of the store are distinct (\<open>jid\<close> is the
  primary key) and no identifier that a chat is rewritten to is matched by \<open>%@lid\<close>: for a
  chat \<open>C\<close> whose identifier ends with \<open>@lid\<close> and maps to \<open>T\<close>, a chat \<open>T\<close> existing before
  the run, after a run that reached its commit there is exactly one chat row \<open>T\<close> (the row
  of before), no chat row \<open>C\<close> and no message that refers to \<open>C\<close>; for an \<open>id\<close> that a
  message under \<open>T\<close> had before the run, the rows under \<open>T\<close> with that \<open>id\<close> are the rows of
  before (no copy from \<open>C\<close> has joined them); and every \<open>id\<close> that a message under \<open>C\<close> had
  is the \<open>id\<close> of a message under \<open>T\<close>.
\<close>

theorem merge_postcondition:
  assumes run: "migrate_messages_db raises store lid_map = (Inr rep, store')"
    and maps: "build_maps lid_map = (jid_map, user_map)"
    and chats_free: "chat_chain_free jid_map user_map"
    and keys: "distinct (map jid (chats store))"
    and C: "C \<in> jid ` set (chats store)" "suffix ''@lid'' C"
    and target: "chat_target jid_map user_map C = Some T"
    and T: "T \<in> jid ` set (chats store)"
  shows "length (filter (\<lambda>x. jid x = T) (chats store')) = 1
     \<and> filter (\<lambda>x. jid x = T) (chats store') = filter (\<lambda>x. jid x = T) (chats store)
     \<and> C \<notin> jid ` set (chats store')
     \<and> C \<notin> chat_jid ` set (messages store')
     \<and> (\<forall>i \<in> msg_id ` {m \<in> set (messages store). chat_jid m = T}.
           map (\<lambda>m. (msg_id m, chat_jid m, msg_cols m))
             (filter (\<lambda>m. chat_jid m = T \<and> msg_id m = i) (messages store'))
           = map (\<lambda>m. (msg_id m, chat_jid m, msg_cols m))
               (filter (\<lambda>m. chat_jid m = T \<and> msg_id m = i) (messages store)))
     \<and> (\<forall>m \<in> set (messages store). chat_jid m = C \<longrightarrow>
           (\<exists>m' \<in> set (messages store'). msg_id m' = msg_id m \<and> chat_jid m' = T))"
proof -
  from run have "run_passes raises lid_map store = Inr (rep, store')"
    by (simp add: migrate_messages_db_Inr)
  from run_passes_Inr [OF this maps] obtain outs d1 n d2 b where
    chat: "chat_pass raises jid_map user_map store = Inr (outs, d1)" and
    full: "full_sender_pass raises jid_map user_map d1 = Inr (n, d2)" and
    bare: "bare_sender_pass raises user_map d2 = Inr (b, store')"
    by blast
  let ?cs = "filter like_lid (map jid (chats store))"
  note d1 = chat_pass_Inr(1) [OF chat]
  from sender_passes_frame [OF full bare] obtain G where
    chats': "chats store' = chats d1" and
    rows': "messages store' = map G (messages d1)" and
    G: "\<And>m. msg_id (G m) = msg_id m \<and> chat_jid (G m) = chat_jid m \<and> msg_cols (G m) = msg_cols m"
    by blast
  from C(2) have likeC: "like_lid C" by (rule like_lid_suffix)
  with C(1) have Ccs: "C \<in> set ?cs" by auto
  from target have mapped: "chat_target jid_map user_map C \<noteq> None" by simp
  from chats_free target have "\<not> like_lid T" by (auto simp: chat_chain_free_def)
  then have Tcs: "T \<notin> set ?cs" by simp
  have refs': "chat_jid ` set (messages store') = chat_jid ` set (messages d1)"
    unfolding rows' by (simp add: image_comp comp_def G)
  have frame: "filter (\<lambda>x. jid x = T) (chats store') = filter (\<lambda>x. jid x = T) (chats store)"
    unfolding chats' d1 using chat_fold_chat_frame [OF T, of ?cs jid_map user_map] Tcs by simp
  with one_row_of_key [OF keys T] have one: "length (filter (\<lambda>x. jid x = T) (chats store')) = 1"
    by simp
  have noC: "C \<notin> jid ` set (chats store')"
  proof
    assume "C \<in> jid ` set (chats store')"
    then have "C \<in> jid ` set (chats (chat_fold jid_map user_map ?cs store))"
      by (simp add: chats' d1)
    from chat_fold_chats_gone [OF chats_free likeC mapped this] Ccs show False by simp
  qed
  have norefs1: "C \<notin> chat_jid ` set (messages d1)"
  proof
    assume "C \<in> chat_jid ` set (messages d1)"
    then have "C \<in> chat_jid ` set (messages (chat_fold jid_map user_map ?cs store))"
      by (simp add: d1)
    from chat_fold_refs_gone [OF chats_free likeC mapped this] Ccs show False by simp
  qed
  with refs' have norefs: "C \<notin> chat_jid ` set (messages store')" by simp
  have kept: "map (\<lambda>m. (msg_id m, chat_jid m, msg_cols m))
             (filter (\<lambda>m. chat_jid m = T \<and> msg_id m = i) (messages store'))
           = map (\<lambda>m. (msg_id m, chat_jid m, msg_cols m))
               (filter (\<lambda>m. chat_jid m = T \<and> msg_id m = i) (messages store))"
    if "i \<in> msg_id ` {m \<in> set (messages store). chat_jid m = T}" for i
  proof -
    from that have ex: "\<exists>m \<in> set (messages store). chat_jid m = T \<and> msg_id m = i" by auto
    have "filter (\<lambda>m. chat_jid m = T \<and> msg_id m = i) (messages store')
        = map G (filter (\<lambda>m. chat_jid m = T \<and> msg_id m = i) (messages d1))"
      unfolding rows' by (simp add: filter_map comp_def G)
    also have "filter (\<lambda>m. chat_jid m = T \<and> msg_id m = i) (messages d1)
        = filter (\<lambda>m. chat_jid m = T \<and> msg_id m = i) (messages store)"
      unfolding d1 by (rule chat_fold_target_rows [OF T Tcs ex])
    finally show ?thesis by (simp add: comp_def G)
  qed
  have moved: "\<exists>m' \<in> set (messages store'). msg_id m' = msg_id m \<and> chat_jid m' = T"
    if m: "m \<in> set (messages store)" "chat_jid m = C" for m
  proof -
    from m have "\<exists>x \<in> set (messages store). msg_id x = msg_id m \<and> (chat_jid x = T \<or> chat_jid x = C)"
      by blast
    from chat_fold_present [OF T Tcs target this] obtain m1 where
      m1: "m1 \<in> set (messages d1)" "msg_id m1 = msg_id m" "chat_jid m1 = T \<or> chat_jid m1 = C"
      unfolding d1 by blast
    from m1(1) norefs1 have "chat_jid m1 \<noteq> C" by auto
    with m1(3) have "chat_jid m1 = T" by simp
    with m1(1,2) show ?thesis
      unfolding rows' by (intro bexI [of _ "G m1"]) (simp_all add: G)
  qed
  from one frame noC norefs kept moved show ?thesis by blast
qed

text \<open>
  In the worked run the chat \<open>111@lid\<close> maps to \<open>222@s.whatsapp.net\<close>, which exists: the
  message \<open>m1\<close> is under both and is kept under the target only, the message \<open>m2\<close> is moved.
\<close>

theorem merge_postcondition_witness:
  "migrate_messages_db no_faults example_store [(''111@lid'', ''222@s.whatsapp.net'')]
     = (Inr \<lparr>outcomes = [NO_MAPPING ''555@lid'', MERGED ''111@lid'' ''222@s.whatsapp.net'' 1 1],
             senders_updated = 0, bare_updated = 1\<rparr>,
        example_result)
   \<and> build_maps [(''111@lid'', ''222@s.whatsapp.net'')] = (example_jid_map, example_user_map)
   \<and> chat_chain_free example_jid_map example_user_map
   \<and> distinct (map jid (chats example_store))
   \<and> ''111@lid'' \<in> jid ` set (chats example_store)
   \<and> suffix ''@lid'' ''111@lid''
   \<and> chat_target example_jid_map example_user_map ''111@lid'' = Some ''222@s.whatsapp.net''
   \<and> ''222@s.whatsapp.net'' \<in> jid ` set (chats example_store)
   \<and> length (filter (\<lambda>x. jid x = ''222@s.whatsapp.net'') (chats example_result)) = 1
   \<and> ''111@lid'' \<notin> jid ` set (chats example_result)
   \<and> ''111@lid'' \<notin> chat_jid ` set (messages example_result)"
proof -
  have keys: "distinct (map jid (chats example_store))"
    by (simp add: example_store_def)
  have C: "''111@lid'' \<in> jid ` set (chats example_store)" "suffix ''@lid'' ''111@lid''"
    by (simp_all add: example_store_def suffix_to_prefix)
  have T: "''222@s.whatsapp.net'' \<in> jid ` set (chats example_store)"
    by (simp add: example_store_def)
  note merge_postcondition [OF example_run example_maps example_chat_chain_free keys C
      example_targets(2) T]
  then have "length (filter (\<lambda>x. jid x = ''222@s.whatsapp.net'') (chats example_result)) = 1
     \<and> ''111@lid'' \<notin> jid ` set (chats example_result)
     \<and> ''111@lid'' \<notin> chat_jid ` set (messages example_result)"
    by blast
  with example_run example_maps example_chat_chain_free keys C example_targets(2) T
  show ?thesis by simp
qed

lemma relay_maps: "build_maps relay_map = (relay_jid_map, relay_user_map)"
  by (simp add: build_maps_def relay_map_def relay_jid_map_def relay_user_map_def user_part_def
      split_first_def)

lemma relay_bare: "bare_lid ''1@x@lid'' = ''1@x''" "bare_lid ''2@lid'' = ''2''"
  by (simp_all add: bare_lid_def suffix_to_prefix)

lemma relay_like: "like_lid ''1@x@lid''" "like_lid ''2@lid''"
  by (simp_all add: like_lid_suffix suffix_to_prefix)

lemma relay_chat_pass:
  "chat_pass no_faults relay_jid_map relay_user_map relay_store
     = Inr ([MERGED ''1@x@lid'' ''2@lid'' 0 0, RENAMED ''2@lid'' ''3@s.whatsapp.net''], relay_result)"
proof -
  let ?mid = "\<lparr>chats = [\<lparr>jid = ''2@lid'', chat_cols = ''Bob''\<rparr>], messages = []\<rparr>"
  have sel: "select_lid_chats no_faults relay_store = Inr [''1@x@lid'', ''2@lid'']"
    by (simp add: select_lid_chats_def relay_store_def relay_like)
  have c1: "migrate_chat no_faults relay_jid_map relay_user_map ''1@x@lid'' relay_store
      = Inr (MERGED ''1@x@lid'' ''2@lid'' 0 0, ?mid)"
    by (simp add: migrate_chat_def Let_def relay_bare relay_jid_map_def relay_user_map_def
        rewrite_chat_def count_chats_def merge_chat_def delete_dup_messages_def
        update_messages_chat_def delete_chat_def relay_store_def)
  have c2: "migrate_chat no_faults relay_jid_map relay_user_map ''2@lid'' ?mid
      = Inr (RENAMED ''2@lid'' ''3@s.whatsapp.net'', relay_result)"
    by (simp add: migrate_chat_def Let_def relay_bare relay_user_map_def rewrite_chat_def
        count_chats_def rename_chat_def update_chat_jid_def set_jid_def update_messages_chat_def
        relay_result_def)
  show ?thesis
    by (simp add: chat_pass_def sel c1 c2)
qed

lemma relay_run:
  "migrate_messages_db no_faults relay_store relay_map
     = (Inr \<lparr>outcomes = [MERGED ''1@x@lid'' ''2@lid'' 0 0, RENAMED ''2@lid'' ''3@s.whatsapp.net''],
             senders_updated = 0, bare_updated = 0\<rparr>,
        relay_result)"
  by (simp add: migrate_messages_db_def run_passes_def relay_maps relay_chat_pass
      full_sender_pass_def bare_sender_pass_def select_lid_senders_def select_senders_def
      sql_distinct_def relay_result_def)

text \<open>
  C4 as the claim states it fails when the target is itself rewritten: the chat \<open>1@x@lid\<close>
  maps to \<open>2@lid\<close> (no bare-user entry for \<open>1@x\<close>, full-identifier entry), which exists, so
  the two are merged; then \<open>2@lid\<close> is renamed, and after the run no chat has the
  identifier \<open>2@lid\<close>.
\<close>

theorem merge_target_renamed_counterexample:
  "build_maps relay_map = (relay_jid_map, relay_user_map)
   \<and> suffix ''@lid'' ''1@x@lid''
   \<and> relay_user_map (bare_lid ''1@x@lid'') = None
   \<and> relay_jid_map ''1@x@lid'' = Some ''2@lid''
   \<and> map jid (chats relay_store) = [''1@x@lid'', ''2@lid'']
   \<and> migrate_messages_db no_faults relay_store relay_map
       = (Inr \<lparr>outcomes = [MERGED ''1@x@lid'' ''2@lid'' 0 0,
                            RENAMED ''2@lid'' ''3@s.whatsapp.net''],
               senders_updated = 0, bare_updated = 0\<rparr>,
          relay_result)
   \<and> filter (\<lambda>x. jid x = ''2@lid'') (chats relay_result) = []"
proof -
  have "suffix ''@lid'' ''1@x@lid''"
    by (simp add: suffix_to_prefix)
  moreover have "relay_user_map (bare_lid ''1@x@lid'') = None"
    "relay_jid_map ''1@x@lid'' = Some ''2@lid''"
    by (simp_all add: relay_bare relay_user_map_def relay_jid_map_def)
  moreover have "map jid (chats relay_store) = [''1@x@lid'', ''2@lid'']"
    "filter (\<lambda>x. jid x = ''2@lid'') (chats relay_result) = []"
    by (simp_all add: relay_store_def relay_result_def)
  ultimately show ?thesis
    using relay_maps relay_run by simp
qed

section \<open>Rewritten senders\<close>

lemma dupes_removed_simps [simp]:
  "dupes_removed [] = 0"
  "dupes_removed (MERGED c t k mv # outs) = k + dupes_removed outs"
  "dupes_removed (RENAMED c t # outs) = dupes_removed outs"
  "dupes_removed (NO_MAPPING c # outs) = dupes_removed outs"
  by (simp_all add: dupes_removed_def)

lemma rewrite_chat_dupes:
  assumes "rewrite_chat raises c t d = Inr (out, d')"
  shows "length (messages d') + dupes_removed [out] = length (messages d)"
proof -
  from assms obtain n where cnt: "count_chats raises t d = Inr n"
    and br: "(if 0 < n then merge_chat raises c t d else rename_chat raises c t d) = Inr (out, d')"
    by (auto simp: rewrite_chat_def bind_err_Inr)
  show ?thesis
  proof (cases "0 < n")
    case True
    with br have "merge_chat raises c t d = Inr (out, d')" by simp
    then obtain k d1 mv d2 where
      a: "delete_dup_messages raises c c t d = Inr (k, d1)" and
      b: "update_messages_chat raises t c d1 = Inr (mv, d2)" and
      e: "delete_chat raises c d2 = Inr d'" and
      out: "out = MERGED c t k mv"
      by (auto simp: merge_chat_def bind_err_Inr)
    from delete_dup_messages_Inr [OF a] update_messages_chat_Inr [OF b] delete_chat_Inr [OF e]
    have "length (messages d') = length (filter (\<lambda>m. \<not> is_dup c c t (messages d) m) (messages d))"
      and "k = length (filter (is_dup c c t (messages d)) (messages d))"
      by simp_all
    with out sum_length_filter_compl [of "is_dup c c t (messages d)" "messages d"]
    show ?thesis by simp
  next
    case False
    with br have "rename_chat raises c t d = Inr (out, d')" by simp
    then obtain d1 mv where
      a: "update_chat_jid raises t c d = Inr d1" and
      b: "update_messages_chat raises t c d1 = Inr (mv, d')" and
      out: "out = RENAMED c t"
      by (auto simp: rename_chat_def bind_err_Inr)
    from update_chat_jid_Inr [OF a] update_messages_chat_Inr [OF b] out
    show ?thesis by simp
  qed
qed

lemma migrate_chat_dupes:
  assumes "migrate_chat raises jm um c d = Inr (out, d')"
  shows "length (messages d') + dupes_removed [out] = length (messages d)"
proof (cases "chat_target jm um c")
  case None
  with assms show ?thesis by (auto simp: migrate_chat_target)
next
  case (Some t)
  with assms have "rewrite_chat raises c t d = Inr (out, d')"
    by (simp add: migrate_chat_target)
  then show ?thesis by (rule rewrite_chat_dupes)
qed

lemma dupes_removed_Cons: "dupes_removed (out # outs) = dupes_removed [out] + dupes_removed outs"
  by (simp add: dupes_removed_def)

lemma chat_loop_dupes:
  "chat_loop raises jm um cs d = Inr (outs, d') \<Longrightarrow>
     length (messages d') + dupes_removed outs = length (messages d)"
proof (induction cs arbitrary: d outs)
  case Nil
  then show ?case by simp
next
  case (Cons c cs)
  from Cons.prems obtain out d1 outs1
    where step: "migrate_chat raises jm um c d = Inr (out, d1)"
      and rest: "chat_loop raises jm um cs d1 = Inr (outs1, d')"
      and outs: "outs = out # outs1"
    by (auto simp: bind_err_Inr)
  from Cons.IH [OF rest] migrate_chat_dupes [OF step] outs
  show ?case by (simp add: dupes_removed_Cons [of out outs1])
qed

lemma chat_pass_dupes:
  assumes "chat_pass raises jm um d = Inr (outs, d')"
  shows "length (messages d') + dupes_removed outs = length (messages d)"
proof -
  from assms obtain cs where "chat_loop raises jm um cs d = Inr (outs, d')"
    by (auto simp: chat_pass_def bind_err_Inr)
  then show ?thesis by (rule chat_loop_dupes)
qed

lemma chat_step_ids:
  assumes "chat_target jm um c \<noteq> Some c"
  shows "msg_id ` set (messages (chat_step jm um c d)) = msg_id ` set (messages d)"
proof (cases "chat_target jm um c")
  case None
  then show ?thesis by simp
next
  case (Some t)
  with assms have ne: "t \<noteq> c" by simp
  define K where "K m \<longleftrightarrow> \<not> (t \<in> jid ` set (chats d) \<and> is_dup c c t (messages d) m)" for m
  have ms: "messages (chat_step jm um c d) = map (set_chat_jid t c) (filter K (messages d))"
    unfolding K_def by (rule chat_step_messages [OF Some])
  have "msg_id ` set (messages (chat_step jm um c d)) = msg_id ` set (filter K (messages d))"
    unfolding ms by (simp add: image_comp comp_def)
  also have "\<dots> = msg_id ` set (messages d)"
  proof
    show "msg_id ` set (filter K (messages d)) \<subseteq> msg_id ` set (messages d)" by auto
    show "msg_id ` set (messages d) \<subseteq> msg_id ` set (filter K (messages d))"
    proof
      fix i assume "i \<in> msg_id ` set (messages d)"
      then obtain m where m: "m \<in> set (messages d)" "msg_id m = i" by auto
      show "i \<in> msg_id ` set (filter K (messages d))"
      proof (cases "K m")
        case True
        with m show ?thesis
          by (intro image_eqI [of _ _ m]) simp_all
      next
        case False
        then have "is_dup c c t (messages d) m" by (simp add: K_def)
        then obtain m2 where m2: "m2 \<in> set (messages d)" "msg_id m2 = msg_id m" "chat_jid m2 = t"
          unfolding is_dup_iff by blast
        with ne have "K m2" by (simp add: K_def is_dup_iff)
        with m2 m(2) show ?thesis
          by (intro image_eqI [of _ _ m2]) simp_all
      qed
    qed
  qed
  finally show ?thesis .
qed

lemma chat_fold_ids:
  assumes "\<forall>c \<in> set cs. chat_target jm um c \<noteq> Some c"
  shows "msg_id ` set (messages (chat_fold jm um cs d)) = msg_id ` set (messages d)"
  using assms
proof (induction cs arbitrary: d)
  case Nil
  show ?case by simp
next
  case (Cons c cs)
  then have "chat_target jm um c \<noteq> Some c" "\<forall>c \<in> set cs. chat_target jm um c \<noteq> Some c"
    by simp_all
  from Cons.IH [OF this(2), of "chat_step jm um c d"] chat_step_ids [OF this(1), of d]
  show ?case by simp
qed


text \<open>
  C5, as amended. Provided no value that a sender is rewritten to is itself a sender value
  with a mapping: after a run that reached its commit, the message rows are the rows that
  the chat pass left, each with the sender \<open>S'\<close> where it had a sender \<open>S\<close> with a mapping to
  \<open>S'\<close> and with its sender as before otherwise; and no row has a sender that has a mapping.
  The rows that the chat pass left are the rows of before, in their order, less the
  duplicates that its merges deleted: a row whose chat reference is not a chat of the store
  matched by \<open>%@lid\<close> with a mapping is kept, with that reference; as many rows are gone as
  the \<open>MERGED\<close> outcomes report duplicates; and, unless a chat maps to itself, every \<open>id\<close> of
  before is still the \<open>id\<close> of a row.
\<close>

theorem sender_rewrite_complete:
  assumes run: "migrate_messages_db raises store lid_map = (Inr rep, store')"
    and maps: "build_maps lid_map = (jid_map, user_map)"
    and free: "sender_chain_free jid_map user_map"
  shows "(\<exists>outs d1. chat_pass raises jid_map user_map store = Inr (outs, d1)
            \<and> outcomes rep = outs \<and> chats store' = chats d1
            \<and> messages store' =
                map (\<lambda>m. m\<lparr>sender := sender_after jid_map user_map (sender m)\<rparr>) (messages d1))
     \<and> (\<exists>keep move. messages store' =
            map (\<lambda>m. m\<lparr>chat_jid := move m, sender := sender_after jid_map user_map (sender m)\<rparr>)
              (filter keep (messages store))
          \<and> (\<forall>m. \<not> like_lid (chat_jid m) \<or> chat_jid m \<notin> jid ` set (chats store)
                  \<or> chat_target jid_map user_map (chat_jid m) = None
                \<longrightarrow> keep m \<and> move m = chat_jid m))
     \<and> length (messages store') + dupes_removed (outcomes rep) = length (messages store)
     \<and> ((\<forall>c \<in> jid ` set (chats store). chat_target jid_map user_map c \<noteq> Some c)
          \<longrightarrow> msg_id ` set (messages store') = msg_id ` set (messages store))
     \<and> (\<forall>S S'. sender_target jid_map user_map S = Some S'
            \<longrightarrow> sender_after jid_map user_map S = S' \<and> S \<notin> sender ` set (messages store'))"
proof -
  from run have "run_passes raises lid_map store = Inr (rep, store')"
    by (simp add: migrate_messages_db_Inr)
  from run_passes_Inr [OF this maps] obtain outs d1 n d2 b where
    chat: "chat_pass raises jid_map user_map store = Inr (outs, d1)" and
    full: "full_sender_pass raises jid_map user_map d1 = Inr (n, d2)" and
    bare: "bare_sender_pass raises user_map d2 = Inr (b, store')" and
    rep: "rep = \<lparr>outcomes = outs, senders_updated = n, bare_updated = b\<rparr>"
    by blast
  let ?cs = "filter like_lid (map jid (chats store))"
  let ?after = "sender_after jid_map user_map"
  note d1 = chat_pass_Inr(1) [OF chat]
  from chat_fold_rows [of jid_map user_map ?cs store] d1 obtain F Q where
    c1: "messages d1 = map F (filter Q (messages store))" and
    c2: "\<And>m. msg_id (F m) = msg_id m \<and> sender (F m) = sender m \<and> msg_cols (F m) = msg_cols m
          \<and> (chat_jid m \<notin> set ?cs \<or> chat_target jid_map user_map (chat_jid m) = None
               \<longrightarrow> Q m \<and> F m = m)"
    by auto
  have F: "(F m)\<lparr>sender := ?after (sender (F m))\<rparr>
      = m\<lparr>chat_jid := chat_jid (F m), sender := ?after (sender m)\<rparr>" for m
    using c2 [of m] by (intro message.equality) simp_all
  from sender_passes_exact [OF free full bare]
  have exact: "chats store' = chats d1"
    "messages store' = map (\<lambda>m. m\<lparr>sender := ?after (sender m)\<rparr>) (messages d1)"
    by simp_all
  from chat rep exact
  have first: "\<exists>outs d1. chat_pass raises jid_map user_map store = Inr (outs, d1)
            \<and> outcomes rep = outs \<and> chats store' = chats d1
            \<and> messages store' = map (\<lambda>m. m\<lparr>sender := ?after (sender m)\<rparr>) (messages d1)"
    by simp
  from exact(2) have rows: "messages store' =
      map (\<lambda>m. m\<lparr>chat_jid := chat_jid (F m), sender := ?after (sender m)\<rparr>) (filter Q (messages store))"
    by (simp add: c1 comp_def F)
  have kept: "Q m \<and> chat_jid (F m) = chat_jid m"
    if "\<not> like_lid (chat_jid m) \<or> chat_jid m \<notin> jid ` set (chats store)
          \<or> chat_target jid_map user_map (chat_jid m) = None" for m
  proof -
    from that have "chat_jid m \<notin> set ?cs \<or> chat_target jid_map user_map (chat_jid m) = None"
      by auto
    with c2 [of m] show ?thesis by simp
  qed
  from rows kept
  have second: "\<exists>keep move. messages store' =
      map (\<lambda>m. m\<lparr>chat_jid := move m, sender := ?after (sender m)\<rparr>) (filter keep (messages store))
        \<and> (\<forall>m. \<not> like_lid (chat_jid m) \<or> chat_jid m \<notin> jid ` set (chats store)
                  \<or> chat_target jid_map user_map (chat_jid m) = None
                \<longrightarrow> keep m \<and> move m = chat_jid m)"
    by (intro exI [of _ Q] exI [of _ "\<lambda>m. chat_jid (F m)"]) simp
  from chat_pass_dupes [OF chat] exact(2) rep
  have third: "length (messages store') + dupes_removed (outcomes rep) = length (messages store)"
    by simp
  have fourth: "msg_id ` set (messages store') = msg_id ` set (messages store)"
    if self: "\<forall>c \<in> jid ` set (chats store). chat_target jid_map user_map c \<noteq> Some c"
  proof -
    from self have "\<forall>c \<in> set ?cs. chat_target jid_map user_map c \<noteq> Some c" by auto
    from chat_fold_ids [OF this, of store] d1
    have "msg_id ` set (messages d1) = msg_id ` set (messages store)" by simp
    moreover have "msg_id ` set (messages store') = msg_id ` set (messages d1)"
      unfolding exact(2) by (simp add: image_comp comp_def)
    ultimately show ?thesis by simp
  qed
  have gone: "sender_after jid_map user_map S = S' \<and> S \<notin> sender ` set (messages store')"
    if S: "sender_target jid_map user_map S = Some S'" for S S'
  proof
    from S show "sender_after jid_map user_map S = S'"
      by (simp add: sender_after_def)
    show "S \<notin> sender ` set (messages store')"
    proof
      assume "S \<in> sender ` set (messages store')"
      then have "S \<in> ?after ` sender ` set (messages d1)"
        unfolding exact(2) by (simp add: image_comp comp_def)
      then obtain m :: message where "S = ?after (sender m)" by blast
      then have "sender_target jid_map user_map S = None"
        using free
        by (cases "sender_target jid_map user_map (sender m)")
          (auto simp: sender_after_def sender_chain_free_def)
      with S show False by simp
    qed
  qed
  from first second third fourth gone show ?thesis by blast
qed

text \<open>
  In the worked run the sender \<open>111\<close> has the mapping to \<open>222\<close>; no row has it afterwards.
  Of the four rows one went, the duplicate that the merge reports, and the three ids of
  before are the ids afterwards.
\<close>

theorem sender_rewrite_complete_witness:
  "migrate_messages_db no_faults example_store [(''111@lid'', ''222@s.whatsapp.net'')]
     = (Inr \<lparr>outcomes = [NO_MAPPING ''555@lid'', MERGED ''111@lid'' ''222@s.whatsapp.net'' 1 1],
             senders_updated = 0, bare_updated = 1\<rparr>,
        example_result)
   \<and> build_maps [(''111@lid'', ''222@s.whatsapp.net'')] = (example_jid_map, example_user_map)
   \<and> sender_chain_free example_jid_map example_user_map
   \<and> sender_target example_jid_map example_user_map ''111'' = Some ''222''
   \<and> ''111'' \<in> sender ` set (messages example_store)
   \<and> ''111'' \<notin> sender ` set (messages example_result)
   \<and> sender_after example_jid_map example_user_map ''111'' = ''222''
   \<and> length (messages example_result) + 1 = length (messages example_store)
   \<and> msg_id ` set (messages example_result) = msg_id ` set (messages example_store)"
proof -
  have before: "''111'' \<in> sender ` set (messages example_store)"
    by (simp add: example_store_def)
  note all = sender_rewrite_complete [OF example_run example_maps example_sender_chain_free]
  note gone = all [THEN conjunct2, THEN conjunct2, THEN conjunct2, THEN conjunct2, rule_format,
      OF example_targets(4)]
  from all have "length (messages example_result)
      + dupes_removed [NO_MAPPING ''555@lid'', MERGED ''111@lid'' ''222@s.whatsapp.net'' 1 1]
      = length (messages example_store)"
    by simp
  then have len: "length (messages example_result) + 1 = length (messages example_store)"
    by simp
  have "\<forall>c \<in> jid ` set (chats example_store).
      chat_target example_jid_map example_user_map c \<noteq> Some c"
    using example_targets(1,2)
    by (simp add: example_store_def chat_target_def example_jid_map_def example_user_map_def
        bare_lid_def suffix_to_prefix)
  with all have ids: "msg_id ` set (messages example_result) = msg_id ` set (messages example_store)"
    by blast
  from gone len ids example_run example_maps example_sender_chain_free example_targets(4) before
  show ?thesis by simp
qed


section \<open>The mapping loader\<close>






end
